theory Spec2Isabelle
  imports Main
begin

section \<open>JavaScript values and array accesses of GameOfLife.js\<close>

text \<open>
  The component keeps its grid as an array of rows of numbers. Numbers are modelled as
  integers; \<open>None\<close> stands for \<open>NaN\<close> where a number is computed and for
  \<open>undefined\<close> where an array element is read (an index past the end, or a hole left
  by a write past the end).
\<close>

datatype error = TypeError | RangeError | SyntaxError

type_synonym jsnum = "int option"

type_synonym cell = "int option"

type_synonym grid = "cell list list"

text \<open>\<open>a % b\<close> on integers: the sign of the dividend, \<open>NaN\<close> for a zero divisor.\<close>

definition js_rem :: "int \<Rightarrow> int \<Rightarrow> jsnum" where
  "js_rem a b = (if b = 0 then None else Some (sgn a * (\<bar>a\<bar> mod \<bar>b\<bar>)))"

text \<open>\<open>(i + x + numRows) % numRows\<close>, the index computation of lines 71-72 and 100-101.\<close>

definition wrap :: "int \<Rightarrow> int \<Rightarrow> int \<Rightarrow> jsnum" where
  "wrap i x n = js_rem (i + x + n) n"

text \<open>\<open>xs[k]\<close>: \<open>undefined\<close> unless \<open>k\<close> is an index of the array.\<close>

definition elem :: "'a list \<Rightarrow> jsnum \<Rightarrow> 'a option" where
  "elem xs k =
     (case k of
        None \<Rightarrow> None
      | Some n \<Rightarrow> if 0 \<le> n \<and> n < int (length xs) then Some (xs ! nat n) else None)"

text \<open>\<open>g[a][b]\<close>: reading a property of an \<open>undefined\<close> row throws.\<close>

definition get_cell :: "grid \<Rightarrow> jsnum \<Rightarrow> jsnum \<Rightarrow> error + cell" where
  "get_cell g a b =
     (case elem g a of
        None \<Rightarrow> Inl TypeError
      | Some row \<Rightarrow> Inr (case elem row b of None \<Rightarrow> None | Some c \<Rightarrow> c))"

text \<open>
  \<open>row[k] = v\<close>: an index inside the row overwrites; an index past the end extends the
  row, leaving holes between; a negative or \<open>NaN\<close> key is not an array index, it
  becomes an ordinary property and no element changes. Such a property is never read
  back, since every read of the component uses a non-negative index. (The limit of
  \<open>2^32 - 1\<close> elements of an array is not modelled here.)
\<close>

definition put_elem :: "cell list \<Rightarrow> jsnum \<Rightarrow> int \<Rightarrow> cell list" where
  "put_elem row k v =
     (case k of
        None \<Rightarrow> row
      | Some n \<Rightarrow>
          if n < 0 then row
          else if n < int (length row) then row[nat n := Some v]
          else row @ replicate (nat n - length row) None @ [Some v])"

text \<open>\<open>g[a][b] = v\<close>: writing a property of an \<open>undefined\<close> row throws.\<close>

definition put_cell :: "grid \<Rightarrow> jsnum \<Rightarrow> jsnum \<Rightarrow> int \<Rightarrow> error + grid" where
  "put_cell g a b v =
     (case a of
        None \<Rightarrow> Inl TypeError
      | Some n \<Rightarrow>
          if 0 \<le> n \<and> n < int (length g) then Inr (g[nat n := put_elem (g ! nat n) b v])
          else Inl TypeError)"

text \<open>
  A loop whose body may throw. The state reached so far is returned with the error,
  because a body that mutates shared arrays has already changed them when it throws.
\<close>

fun for_each :: "'a list \<Rightarrow> ('a \<Rightarrow> 's \<Rightarrow> error option \<times> 's) \<Rightarrow> 's \<Rightarrow> error option \<times> 's" where
  "for_each [] body s = (None, s)"
| "for_each (x # xs) body s =
     (case body x s of
        (Some e, s') \<Rightarrow> (Some e, s')
      | (None, s') \<Rightarrow> for_each xs body s')"

section \<open>Rule sets (lines 13-17)\<close>

definition conway :: "jsnum \<Rightarrow> cell \<Rightarrow> bool" where
  "conway neighbors c = (neighbors = Some 3 \<or> (c = Some 1 \<and> neighbors = Some 2))"

definition highlife :: "jsnum \<Rightarrow> cell \<Rightarrow> bool" where
  "highlife neighbors c =
     (neighbors = Some 3 \<or> (c = Some 1 \<and> neighbors = Some 2) \<or> (c = Some 0 \<and> neighbors = Some 6))"

definition dayAndNight :: "jsnum \<Rightarrow> cell \<Rightarrow> bool" where
  "dayAndNight neighbors c =
     (neighbors \<in> set [Some 3, Some 6, Some 7, Some 8]
      \<or> (c = Some 1 \<and> neighbors \<in> set [Some 3, Some 4, Some 6, Some 7, Some 8]))"

definition simulationModes :: "string \<rightharpoonup> (jsnum \<Rightarrow> cell \<Rightarrow> bool)" where
  "simulationModes =
     map_of [(''conway'', conway), (''highlife'', highlife), (''dayAndNight'', dayAndNight)]"

text \<open>\<open>rule(neighbors, cell) ? 1 : 0\<close>, the value line 76 stores.\<close>

definition next_state :: "(jsnum \<Rightarrow> cell \<Rightarrow> bool) \<Rightarrow> jsnum \<Rightarrow> cell \<Rightarrow> int" where
  "next_state rule neighbors c = (if rule neighbors c then 1 else 0)"

section \<open>Component state\<close>

text \<open>
  The \<open>useState\<close> cells of the component that the engine reads or writes. The display
  settings (speed, colour, zoom, fullscreen) are left out.
\<close>

record state =
  numRows :: int
  numCols :: int
  grid :: grid
  running :: bool
  generations :: int
  brushSize :: int
  isEraser :: bool
  simulationMode :: string
  population :: "int list"

text \<open>
  \<open>Array(rows).fill().map(() => Array(cols).fill(0))\<close>: \<open>Array(n)\<close> throws a
  RangeError unless \<open>0 \<le> n \<le> 2^32 - 1\<close>; the inner call only runs when there is a row.
\<close>

definition generateEmptyGrid :: "int \<Rightarrow> int \<Rightarrow> error + grid" where
  "generateEmptyGrid rows cols =
     (if rows < 0 \<or> 2 ^ 32 - 1 < rows then Inl RangeError
      else if 0 < rows \<and> (cols < 0 \<or> 2 ^ 32 - 1 < cols) then Inl RangeError
      else Inr (replicate (nat rows) (replicate (nat cols) (Some 0))))"

definition patterns :: "string \<rightharpoonup> (int \<times> int) list" where
  "patterns =
     map_of [(''glider'', [(0, 1), (1, 2), (2, 0), (2, 1), (2, 2)]),
             (''blinker'', [(0, 1), (1, 1), (2, 1)]),
             (''toad'', [(1, 1), (1, 2), (1, 3), (2, 0), (2, 1), (2, 2)])]"

definition operations :: "(int \<times> int) list" where
  "operations = [(0, 1), (0, -1), (1, -1), (-1, 1), (1, 1), (-1, -1), (1, 0), (-1, 0)]"

section \<open>One generation (lines 60-88)\<close>

text \<open>\<open>neighbors += c\<close>: adding \<open>undefined\<close> or adding to \<open>NaN\<close> gives \<open>NaN\<close>.\<close>

definition js_add :: "jsnum \<Rightarrow> cell \<Rightarrow> jsnum" where
  "js_add a c = (case (a, c) of (Some m, Some n) \<Rightarrow> Some (m + n) | _ \<Rightarrow> None)"

text \<open>The body of \<open>operations.forEach\<close> (lines 70-74), reading the old grid \<open>g\<close>.\<close>

definition add_neighbor ::
  "grid \<Rightarrow> int \<Rightarrow> int \<Rightarrow> int \<Rightarrow> int \<Rightarrow> int \<times> int \<Rightarrow> jsnum \<Rightarrow> error option \<times> jsnum" where
  "add_neighbor g nRows nCols i j off neighbors =
     (case off of (x, y) \<Rightarrow>
        (case get_cell g (wrap i x nRows) (wrap j y nCols) of
           Inl e \<Rightarrow> (Some e, neighbors)
         | Inr c \<Rightarrow> (None, js_add neighbors c)))"

text \<open>
  The body of the inner loop (lines 69-77): count the neighbours in \<open>g\<close>, look the rule
  up by name (calling a missing entry throws), store the new value in \<open>newGrid\<close> and
  add it to the population.
\<close>

definition update_cell ::
  "grid \<Rightarrow> int \<Rightarrow> int \<Rightarrow> string \<Rightarrow> int \<Rightarrow> int \<Rightarrow> grid \<times> int \<Rightarrow> error option \<times> (grid \<times> int)" where
  "update_cell g nRows nCols mode i j acc =
     (case acc of (newGrid, newPopulation) \<Rightarrow>
        (case for_each operations (add_neighbor g nRows nCols i j) (Some 0) of
           (Some e, _) \<Rightarrow> (Some e, acc)
         | (None, neighbors) \<Rightarrow>
             (case simulationModes mode of
                None \<Rightarrow> (Some TypeError, acc)
              | Some rule \<Rightarrow>
                  (case get_cell g (Some i) (Some j) of
                     Inl e \<Rightarrow> (Some e, acc)
                   | Inr c \<Rightarrow>
                       (case put_cell newGrid (Some i) (Some j) (next_state rule neighbors c) of
                          Inl e \<Rightarrow> (Some e, acc)
                        | Inr newGrid' \<Rightarrow>
                            (None, (newGrid', newPopulation + next_state rule neighbors c)))))))"

text \<open>
  The updater passed to \<open>setGrid\<close> (lines 63-83): \<open>newGrid\<close> starts as a copy of
  \<open>g\<close>, the loops run over \<open>0 \<le> i < numRows\<close> and \<open>0 \<le> j < numCols\<close>. The result is the
  new grid and the population handed to \<open>setPopulation\<close>.
\<close>

definition step :: "int \<Rightarrow> int \<Rightarrow> string \<Rightarrow> grid \<Rightarrow> error + grid \<times> int" where
  "step nRows nCols mode g =
     (case for_each [0..nRows - 1]
             (\<lambda>i. for_each [0..nCols - 1] (update_cell g nRows nCols mode i)) (g, 0) of
        (Some e, _) \<Rightarrow> Inl e
      | (None, r) \<Rightarrow> Inr r)"

text \<open>\<open>[...pop.slice(-99), newPopulation]\<close> (line 81).\<close>

definition record_sample :: "int list \<Rightarrow> int \<Rightarrow> int list" where
  "record_sample pop newPopulation = drop (length pop - 99) pop @ [newPopulation]"

text \<open>
  One run of \<open>runSimulation\<close>, without its timer. The function is a closure made by
  \<open>useCallback\<close> for the \<open>numRows\<close>, \<open>numCols\<close> and \<open>simulationMode\<close> of one render
  (line 88), and the timer re-arms that same closure, so a tick that was scheduled
  before a resize or a change of rule still runs with the values it captured. They are
  the parameters \<open>nRows\<close>, \<open>nCols\<close> and \<open>mode\<close>. The running flag is read through a ref
  and the grid is the one \<open>setGrid\<close> hands to the updater, so both are current. The run
  returns at once when the flag is off, otherwise it replaces the grid, records the
  population and counts the generation.
\<close>

definition runSimulation :: "int \<Rightarrow> int \<Rightarrow> string \<Rightarrow> state \<Rightarrow> error + state" where
  "runSimulation nRows nCols mode s =
     (if \<not> running s then Inr s
      else
        (case step nRows nCols mode (grid s) of
           Inl e \<Rightarrow> Inl e
         | Inr (newGrid, newPopulation) \<Rightarrow>
             Inr (s\<lparr>grid := newGrid,
                    population := record_sample (population s) newPopulation,
                    generations := generations s + 1\<rparr>)))"

section \<open>Editing, patterns, resizing (lines 96-135)\<close>

text \<open>The body of the inner brush loop (lines 100-102).\<close>

definition paint_cell ::
  "int \<Rightarrow> int \<Rightarrow> int \<Rightarrow> int \<Rightarrow> int \<Rightarrow> int \<Rightarrow> int \<Rightarrow> grid \<Rightarrow> error option \<times> grid" where
  "paint_cell nRows nCols i j v x y newGrid =
     (case put_cell newGrid (wrap i x nRows) (wrap j y nCols) v of
        Inl e \<Rightarrow> (Some e, newGrid)
      | Inr newGrid' \<Rightarrow> (None, newGrid'))"

text \<open>
  \<open>handleCellClick\<close>: \<open>[...gridRef.current]\<close> copies the outer array only, so the rows
  written are the rows of the current grid. When a write throws, \<open>setGrid\<close> is not
  reached, but the cells painted before are already changed in the state's own rows;
  the grid of the returned state is therefore the painted grid in both cases.
\<close>

definition handleCellClick :: "int \<Rightarrow> int \<Rightarrow> state \<Rightarrow> error option \<times> state" where
  "handleCellClick i j s =
     (let h = brushSize s div 2;
          v = (if isEraser s then 0 else 1)
      in case for_each [- h..h]
                (\<lambda>x. for_each [- h..h] (paint_cell (numRows s) (numCols s) i j v x)) (grid s) of
           (err, newGrid) \<Rightarrow> (err, s\<lparr>grid := newGrid\<rparr>))"

text \<open>The body of \<open>patterns[pattern].forEach\<close> (lines 110-114).\<close>

definition stamp :: "int \<Rightarrow> int \<Rightarrow> int \<times> int \<Rightarrow> grid \<Rightarrow> error option \<times> grid" where
  "stamp nRows nCols off newGrid =
     (case off of (x, y) \<Rightarrow>
        (let centerX = nRows div 2;
             centerY = nCols div 2
         in case put_cell newGrid (Some (centerX + x)) (Some (centerY + y)) 1 of
              Inl e \<Rightarrow> (Some e, newGrid)
            | Inr newGrid' \<Rightarrow> (None, newGrid')))"

text \<open>\<open>handlePatternSelect\<close>: a name without an entry makes \<open>.forEach\<close> throw.\<close>

definition handlePatternSelect :: "string \<Rightarrow> state \<Rightarrow> error + state" where
  "handlePatternSelect pattern s =
     (case generateEmptyGrid (numRows s) (numCols s) of
        Inl e \<Rightarrow> Inl e
      | Inr newGrid \<Rightarrow>
          (case patterns pattern of
             None \<Rightarrow> Inl TypeError
           | Some offsets \<Rightarrow>
               (case for_each offsets (stamp (numRows s) (numCols s)) newGrid of
                  (Some e, _) \<Rightarrow> Inl e
                | (None, stamped) \<Rightarrow>
                    Inr (s\<lparr>grid := stamped, generations := 0, population := []\<rparr>))))"

definition handleReset :: "state \<Rightarrow> error + state" where
  "handleReset s =
     (case generateEmptyGrid (numRows s) (numCols s) of
        Inl e \<Rightarrow> Inl e
      | Inr newGrid \<Rightarrow>
          Inr (s\<lparr>grid := newGrid, generations := 0, running := False, population := []\<rparr>))"

definition handleSizeChange :: "int \<Rightarrow> int \<Rightarrow> state \<Rightarrow> error + state" where
  "handleSizeChange rowChange colChange s =
     (let newRows = max 10 (min 100 (numRows s + rowChange));
          newCols = max 10 (min 100 (numCols s + colChange))
      in case generateEmptyGrid newRows newCols of
           Inl e \<Rightarrow> Inl e
         | Inr newGrid \<Rightarrow>
             Inr (s\<lparr>numRows := newRows, numCols := newCols, grid := newGrid,
                    generations := 0, population := []\<rparr>))"

section \<open>Loading a saved file (lines 147-160)\<close>

text \<open>
  What \<open>JSON.parse\<close> returns, with numbers restricted to integers. \<open>JUndefined\<close> is
  never parsed; it is what reading a missing property gives.
\<close>

datatype jsval =
    JUndefined
  | JNull
  | JBool bool
  | JNum int
  | JStr string
  | JArr "jsval list"
  | JObj "(string \<times> jsval) list"

text \<open>
  \<open>content.name\<close> for the four names \<open>handleLoad\<close> reads, none of which is a property
  of arrays, strings, numbers or booleans: \<open>null\<close> throws, an object gives its entry
  (the last one when the text repeats a key), everything else gives \<open>undefined\<close>.
\<close>

fun get_prop :: "jsval \<Rightarrow> string \<Rightarrow> error + jsval" where
  "get_prop JNull name = Inl TypeError"
| "get_prop JUndefined name = Inl TypeError"
| "get_prop (JObj entries) name =
     Inr (case map_of (rev entries) name of None \<Rightarrow> JUndefined | Some v \<Rightarrow> v)"
| "get_prop v name = Inr JUndefined"

text \<open>
  \<open>handleLoad\<close> stores whatever the file holds, so the state it works on keeps plain
  JavaScript values in the four cells it writes.
\<close>

record loaded_state =
  ld_numRows :: jsval
  ld_numCols :: jsval
  ld_grid :: jsval
  ld_generations :: jsval
  ld_running :: bool
  ld_brushSize :: int
  ld_isEraser :: bool
  ld_simulationMode :: string
  ld_population :: "int list"

definition cell_value :: "cell \<Rightarrow> jsval" where
  "cell_value c = (case c of None \<Rightarrow> JUndefined | Some n \<Rightarrow> JNum n)"

definition grid_value :: "grid \<Rightarrow> jsval" where
  "grid_value g = JArr (map (\<lambda>row. JArr (map cell_value row)) g)"

text \<open>A state of the engine seen as the values \<open>handleLoad\<close> overwrites.\<close>

definition as_loaded :: "state \<Rightarrow> loaded_state" where
  "as_loaded s =
     \<lparr>ld_numRows = JNum (numRows s), ld_numCols = JNum (numCols s),
      ld_grid = grid_value (grid s), ld_generations = JNum (generations s),
      ld_running = running s, ld_brushSize = brushSize s, ld_isEraser = isEraser s,
      ld_simulationMode = simulationMode s, ld_population = population s\<rparr>"

text \<open>
  The \<open>onload\<close> callback, which runs once a file was chosen and read. The argument is
  the result of \<open>JSON.parse\<close> on the file's text, \<open>None\<close> when it throws a
  SyntaxError. An error leaves the state as it was: no setter has been called.
\<close>

definition handleLoad :: "jsval option \<Rightarrow> loaded_state \<Rightarrow> error + loaded_state" where
  "handleLoad parsed s =
     (case parsed of
        None \<Rightarrow> Inl SyntaxError
      | Some content \<Rightarrow>
          (case get_prop content ''grid'' of
             Inl e \<Rightarrow> Inl e
           | Inr g \<Rightarrow>
               (case get_prop content ''generations'' of
                  Inl e \<Rightarrow> Inl e
                | Inr gen \<Rightarrow>
                    (case get_prop content ''numRows'' of
                       Inl e \<Rightarrow> Inl e
                     | Inr r \<Rightarrow>
                         (case get_prop content ''numCols'' of
                            Inl e \<Rightarrow> Inl e
                          | Inr c \<Rightarrow>
                              Inr (s\<lparr>ld_grid := g, ld_generations := gen,
                                     ld_numRows := r, ld_numCols := c\<rparr>))))))"

section \<open>Example states\<close>

text \<open>The state the component starts in (lines 33-44).\<close>

definition initial_state :: state where
  "initial_state =
     \<lparr>numRows = 50, numCols = 50, grid = replicate 50 (replicate 50 (Some 0)),
      running = False, generations = 0, brushSize = 1, isEraser = False,
      simulationMode = ''conway'', population = []\<rparr>"

text \<open>A running 3 by 3 torus holding one full column.\<close>

definition tiny_state :: state where
  "tiny_state =
     \<lparr>numRows = 3, numCols = 3,
      grid = [[Some 0, Some 1, Some 0], [Some 0, Some 1, Some 0], [Some 0, Some 1, Some 0]],
      running = True, generations = 4, brushSize = 1, isEraser = False,
      simulationMode = ''conway'', population = [3, 3]\<rparr>"

text \<open>A column of three live cells in a 5 by 5 grid, and the row it turns into.\<close>

definition upright_in_five :: grid where
  "upright_in_five =
     [[Some 0, Some 0, Some 0, Some 0, Some 0],
      [Some 0, Some 0, Some 1, Some 0, Some 0],
      [Some 0, Some 0, Some 1, Some 0, Some 0],
      [Some 0, Some 0, Some 1, Some 0, Some 0],
      [Some 0, Some 0, Some 0, Some 0, Some 0]]"

definition flat_in_five :: grid where
  "flat_in_five =
     [[Some 0, Some 0, Some 0, Some 0, Some 0],
      [Some 0, Some 0, Some 0, Some 0, Some 0],
      [Some 0, Some 1, Some 1, Some 1, Some 0],
      [Some 0, Some 0, Some 0, Some 0, Some 0],
      [Some 0, Some 0, Some 0, Some 0, Some 0]]"


text \<open>The starting grid with one live cell, after seven generations.\<close>

definition painted_state :: state where
  "painted_state =
     initial_state
       \<lparr>grid := (replicate 50 (replicate 50 (Some 0)))[25 := (replicate 50 (Some 0))[25 := Some 1]],
        generations := 7, population := [1]\<rparr>"

text \<open>A saved file whose second row has one entry instead of three.\<close>

definition jagged_payload :: jsval where
  "jagged_payload =
     JObj [(''grid'', JArr [JArr [JNum 1, JNum 0, JNum 1], JArr [JNum 1],
                            JArr [JNum 0, JNum 0, JNum 0]]),
           (''generations'', JNum 7), (''numRows'', JNum 3), (''numCols'', JNum 3)]"

text \<open>A saved file as \<open>handleSave\<close> writes it: a 2 by 2 grid at generation 12.\<close>

definition saved_payload :: jsval where
  "saved_payload =
     JObj [(''grid'', JArr [JArr [JNum 1, JNum 0], JArr [JNum 0, JNum 1]]),
           (''generations'', JNum 12), (''numRows'', JNum 2), (''numCols'', JNum 2)]"

section \<open>Notions of the specification\<close>

text \<open>A grid of \<open>rows\<close> rows with \<open>cols\<close> entries each, and one holding only 0 and 1.\<close>

definition rectangular :: "int \<Rightarrow> int \<Rightarrow> grid \<Rightarrow> bool" where
  "rectangular rows cols g \<longleftrightarrow>
     0 \<le> rows \<and> 0 \<le> cols \<and> length g = nat rows \<and> (\<forall>row \<in> set g. length row = nat cols)"

definition binary :: "grid \<Rightarrow> bool" where
  "binary g \<longleftrightarrow> (\<forall>row \<in> set g. \<forall>c \<in> set row. c = Some 0 \<or> c = Some 1)"

text \<open>The entry at row \<open>a\<close>, column \<open>b\<close> of a grid, for indices inside it.\<close>

definition cell_at :: "grid \<Rightarrow> int \<Rightarrow> int \<Rightarrow> cell" where
  "cell_at g a b = g ! nat a ! nat b"

text \<open>The eight offsets as the specification lists them, and the neighbour sum over them.\<close>

definition neighbor_offsets :: "(int \<times> int) set" where
  "neighbor_offsets = {(0, 1), (0, -1), (1, 0), (-1, 0), (1, 1), (1, -1), (-1, 1), (-1, -1)}"

definition toroidal_neighbors :: "int \<Rightarrow> int \<Rightarrow> grid \<Rightarrow> int \<Rightarrow> int \<Rightarrow> int" where
  "toroidal_neighbors rows cols g i j =
     (\<Sum>(dx, dy) \<in> neighbor_offsets.
        the (cell_at g ((i + dx + rows) mod rows) ((j + dy + cols) mod cols)))"

text \<open>The next value of one cell and the next grid, computed from the old grid alone.\<close>

definition spec_cell :: "(jsnum \<Rightarrow> cell \<Rightarrow> bool) \<Rightarrow> int \<Rightarrow> int \<Rightarrow> grid \<Rightarrow> int \<Rightarrow> int \<Rightarrow> int" where
  "spec_cell rule rows cols g i j =
     (if rule (Some (toroidal_neighbors rows cols g i j)) (cell_at g i j) then 1 else 0)"

definition spec_step :: "(jsnum \<Rightarrow> cell \<Rightarrow> bool) \<Rightarrow> int \<Rightarrow> int \<Rightarrow> grid \<Rightarrow> grid" where
  "spec_step rule rows cols g =
     map (\<lambda>i. map (\<lambda>j. Some (spec_cell rule rows cols g (int i) (int j))) [0..<nat cols])
       [0..<nat rows]"

definition live_cells :: "grid \<Rightarrow> int" where
  "live_cells g = (\<Sum>row \<leftarrow> g. int (length (filter (\<lambda>c. c = Some 1) row)))"

text \<open>A grid with the entry at row \<open>a\<close>, column \<open>b\<close> replaced, for indices inside it.\<close>

definition with_cell :: "grid \<Rightarrow> int \<Rightarrow> int \<Rightarrow> int \<Rightarrow> grid" where
  "with_cell g a b v = g[nat a := (g ! nat a)[nat b := Some v]]"

text \<open>The empty grid with the listed cells alive, for cells inside it.\<close>

definition grid_with :: "int \<Rightarrow> int \<Rightarrow> (int \<times> int) list \<Rightarrow> grid" where
  "grid_with rows cols live =
     foldl (\<lambda>G (a, b). with_cell G a b 1)
       (replicate (nat rows) (replicate (nat cols) (Some 0))) live"

text \<open>
  The blinker as stamped around the centre (a column of three cells), and the row of
  three cells through its middle, which is the same line turned by 90 degrees.
\<close>

definition blinker_upright :: "int \<Rightarrow> int \<Rightarrow> (int \<times> int) list" where
  "blinker_upright rows cols =
     [(rows div 2, cols div 2 + 1), (rows div 2 + 1, cols div 2 + 1),
      (rows div 2 + 2, cols div 2 + 1)]"

definition blinker_flat :: "int \<Rightarrow> int \<Rightarrow> (int \<times> int) list" where
  "blinker_flat rows cols =
     [(rows div 2 + 1, cols div 2), (rows div 2 + 1, cols div 2 + 1),
      (rows div 2 + 1, cols div 2 + 2)]"

section \<open>Properties of the rule sets\<close>

text \<open>
  C5. Each named rule set is registered under its name and equals its defining formula:
  conway gives 1 iff n = 3 or (c = 1 and n = 2); highlife gives 1 iff conway does or
  (c = 0 and n = 6); dayAndNight gives 1 iff n is in {3,6,7,8} or (c = 1 and n is in
  {3,4,6,7,8}). In particular conway(2,1) = 1, conway(3,0) = 1, conway(4,1) = 0 and
  conway(0,0) = 0. It holds for all integers, so for n in [0,8] and c in {0,1}.
\<close>

theorem rule_sets_match_their_formulas:
  "simulationModes ''conway'' = Some conway \<and>
   simulationModes ''highlife'' = Some highlife \<and>
   simulationModes ''dayAndNight'' = Some dayAndNight \<and>
   (next_state conway (Some n) (Some c) = 1 \<longleftrightarrow> n = 3 \<or> (c = 1 \<and> n = 2)) \<and>
   (next_state highlife (Some n) (Some c) = 1 \<longleftrightarrow>
      next_state conway (Some n) (Some c) = 1 \<or> (c = 0 \<and> n = 6)) \<and>
   (next_state dayAndNight (Some n) (Some c) = 1 \<longleftrightarrow>
      n \<in> {3, 6, 7, 8} \<or> (c = 1 \<and> n \<in> {3, 4, 6, 7, 8})) \<and>
   next_state conway (Some 2) (Some 1) = 1 \<and>
   next_state conway (Some 3) (Some 0) = 1 \<and>
   next_state conway (Some 4) (Some 1) = 0 \<and>
   next_state conway (Some 0) (Some 0) = 0"
  by (simp add: simulationModes_def next_state_def conway_def highlife_def dayAndNight_def)

text \<open>
  C2, as stated, fails: with 4 live neighbours a live cell survives under dayAndNight and
  dies under conway, although 4 is outside {3,6,7,8}.
\<close>

theorem dayAndNight_differs_at_four_neighbours:
  "(4::int) \<in> {0..8} \<and> (4::int) \<notin> {3, 6, 7, 8} \<and> (1::int) \<in> {0, 1} \<and>
   dayAndNight (Some 4) (Some 1) \<noteq> conway (Some 4) (Some 1)"
  by (simp add: conway_def dayAndNight_def)

text \<open>
  C2, amended. highlife agrees with conway for every neighbour count other than 6.
  dayAndNight agrees with conway for every neighbour count outside {3,6,7,8}, except on
  a live cell with 2 or 4 neighbours (conway keeps a live cell with 2, dayAndNight one
  with 4).
\<close>

theorem rule_sets_agree_outside_extensions:
  "(n \<noteq> 6 \<longrightarrow> highlife (Some n) (Some c) = conway (Some n) (Some c)) \<and>
   (n \<notin> {3, 6, 7, 8} \<and> \<not> (c = 1 \<and> n \<in> {2, 4}) \<longrightarrow>
      dayAndNight (Some n) (Some c) = conway (Some n) (Some c))"
  by (auto simp add: conway_def highlife_def dayAndNight_def)

theorem rule_sets_agree_outside_extensions_witness:
  "(5::int) \<noteq> 6 \<and> highlife (Some 5) (Some 1) = conway (Some 5) (Some 1) \<and>
   (5::int) \<notin> {3, 6, 7, 8} \<and> \<not> ((1::int) = 1 \<and> (5::int) \<in> {2, 4}) \<and>
   dayAndNight (Some 5) (Some 1) = conway (Some 5) (Some 1)"
  using rule_sets_agree_outside_extensions [of 5 1] by simp

section \<open>The population history\<close>

lemma record_sample_length: "length (record_sample h p) \<le> 100"
  by (simp add: record_sample_def)

lemma foldl_record_sample:
  "length h \<le> 100 \<Longrightarrow>
   foldl record_sample h ps = drop (length (h @ ps) - 100) (h @ ps)"
proof (induction ps arbitrary: h)
  case Nil
  then show ?case by simp
next
  case (Cons p ps)
  show ?case
  proof (cases "length h \<le> 99")
    case True
    then have "record_sample h p = h @ [p]"
      by (simp add: record_sample_def)
    then show ?thesis using Cons.IH[of "h @ [p]"] True by simp
  next
    case False
    with Cons.prems have l: "length h = 100" by simp
    then have rs: "record_sample h p = drop 1 h @ [p]"
      by (simp add: record_sample_def)
    show ?thesis using Cons.IH[of "drop 1 h @ [p]"] l rs
      by (simp add: drop_Suc)
  qed
qed

lemma runSimulation_records:
  assumes "running s" and "runSimulation nRows nCols mode s = Inr s'"
  shows "\<exists>newGrid p. step nRows nCols mode (grid s) = Inr (newGrid, p)
           \<and> population s' = record_sample (population s) p"
  using assms by (auto simp add: runSimulation_def split: sum.splits)

text \<open>
  C7. Recording the samples \<open>ps\<close> one after the other into an empty history leaves at
  most 100 of them, namely the last 100 in their order; after 150 samples those are the
  samples 51 to 150. Every tick of a running simulation records exactly one sample this
  way, the population of the step it made, and leaves at most 100 samples, whichever
  dimensions and rule the tick runs with (those of the state or older ones).
\<close>

theorem history_keeps_last_100:
  "length (foldl record_sample [] ps) \<le> 100 \<and>
   foldl record_sample [] ps = drop (length ps - 100) ps \<and>
   (length ps = 150 \<longrightarrow> foldl record_sample [] ps = drop 50 ps) \<and>
   (running s \<and> runSimulation nRows nCols mode s = Inr s' \<longrightarrow>
      (\<exists>newGrid p.
          step nRows nCols mode (grid s) = Inr (newGrid, p) \<and>
          population s' = record_sample (population s) p \<and>
          length (population s') \<le> 100))"
proof -
  have eq: "foldl record_sample [] ps = drop (length ps - 100) ps"
    using foldl_record_sample [of "[]" ps] by simp
  have "length (foldl record_sample [] ps) \<le> 100"
    unfolding eq by simp
  moreover have "length ps = 150 \<longrightarrow> foldl record_sample [] ps = drop 50 ps"
    unfolding eq by simp
  moreover have "running s \<and> runSimulation nRows nCols mode s = Inr s' \<longrightarrow>
      (\<exists>newGrid p.
          step nRows nCols mode (grid s) = Inr (newGrid, p) \<and>
          population s' = record_sample (population s) p \<and>
          length (population s') \<le> 100)"
    using runSimulation_records [of s nRows nCols mode s'] record_sample_length by fastforce
  ultimately show ?thesis using eq by blast
qed

theorem history_keeps_last_100_witness:
  "length (map int [0..<150]) = 150 \<and>
   foldl record_sample [] (map int [0..<150]) = drop 50 (map int [0..<150]) \<and>
   running tiny_state \<and>
   runSimulation (numRows tiny_state) (numCols tiny_state) (simulationMode tiny_state) tiny_state =
     Inr (tiny_state\<lparr>grid := replicate 3 (replicate 3 (Some 1)),
                      population := [3, 3, 9], generations := 5\<rparr>) \<and>
   (\<exists>newGrid p.
       step (numRows tiny_state) (numCols tiny_state) (simulationMode tiny_state)
         (grid tiny_state) = Inr (newGrid, p) \<and>
       [3, 3, 9] = record_sample (population tiny_state) p)"
proof -
  have len: "length (map int [0..<150]) = 150"
    by simp
  have run: "running tiny_state"
    by (simp add: tiny_state_def)
  have tick:
    "runSimulation (numRows tiny_state) (numCols tiny_state) (simulationMode tiny_state)
       tiny_state =
     Inr (tiny_state\<lparr>grid := replicate 3 (replicate 3 (Some 1)),
                      population := [3, 3, 9], generations := 5\<rparr>)"
    by code_simp
  show ?thesis
    using history_keeps_last_100
      [of "map int [0..<150]" tiny_state "numRows tiny_state" "numCols tiny_state"
          "simulationMode tiny_state"
          "tiny_state\<lparr>grid := replicate 3 (replicate 3 (Some 1)),
                       population := [3, 3, 9], generations := 5\<rparr>"]
      len run tick
    by simp
qed

section \<open>Resizing\<close>

lemma generateEmptyGrid_clamped:
  "generateEmptyGrid (max 10 (min 100 r)) (max 10 (min 100 c)) =
     Inr (replicate (nat (max 10 (min 100 r))) (replicate (nat (max 10 (min 100 c))) (Some 0)))"
  by (auto simp add: generateEmptyGrid_def)

text \<open>
  C8. \<open>handleSizeChange\<close> always succeeds; the new dimensions are the old ones plus the
  deltas, clamped to [10,100]; the new grid is all empty, the generation counter is 0 and
  the history is empty, whatever the grid held before. So from any 50 by 50 state,
  resizing by (+5,+5) and then by (-5,-5) gives a 50 by 50 all-empty grid.
\<close>

theorem resize_clamps_and_clears:
  "(\<exists>s'. handleSizeChange rowChange colChange s = Inr s' \<and>
      numRows s' = max 10 (min 100 (numRows s + rowChange)) \<and>
      numCols s' = max 10 (min 100 (numCols s + colChange)) \<and>
      10 \<le> numRows s' \<and> numRows s' \<le> 100 \<and> 10 \<le> numCols s' \<and> numCols s' \<le> 100 \<and>
      grid s' = replicate (nat (numRows s')) (replicate (nat (numCols s')) (Some 0)) \<and>
      generations s' = 0 \<and> population s' = []) \<and>
   (numRows s = 50 \<and> numCols s = 50 \<longrightarrow>
      (\<exists>s1 s2. handleSizeChange 5 5 s = Inr s1 \<and> handleSizeChange (- 5) (- 5) s1 = Inr s2 \<and>
         numRows s2 = 50 \<and> numCols s2 = 50 \<and>
         grid s2 = replicate 50 (replicate 50 (Some 0)) \<and>
         generations s2 = 0 \<and> population s2 = []))"
proof -
  have one: "\<exists>s'. handleSizeChange rowChange colChange s = Inr s' \<and>
      numRows s' = max 10 (min 100 (numRows s + rowChange)) \<and>
      numCols s' = max 10 (min 100 (numCols s + colChange)) \<and>
      10 \<le> numRows s' \<and> numRows s' \<le> 100 \<and> 10 \<le> numCols s' \<and> numCols s' \<le> 100 \<and>
      grid s' = replicate (nat (numRows s')) (replicate (nat (numCols s')) (Some 0)) \<and>
      generations s' = 0 \<and> population s' = []"
    by (simp add: handleSizeChange_def Let_def generateEmptyGrid_clamped)
  have two: "\<exists>s1 s2. handleSizeChange 5 5 s = Inr s1 \<and> handleSizeChange (- 5) (- 5) s1 = Inr s2 \<and>
         numRows s2 = 50 \<and> numCols s2 = 50 \<and>
         grid s2 = replicate 50 (replicate 50 (Some 0)) \<and>
         generations s2 = 0 \<and> population s2 = []"
    if "numRows s = 50" "numCols s = 50"
    using that by (simp add: handleSizeChange_def Let_def generateEmptyGrid_def)
  from one two show ?thesis by blast
qed

theorem resize_clamps_and_clears_witness:
  "numRows painted_state = 50 \<and> numCols painted_state = 50 \<and>
   grid painted_state ! 25 ! 25 = Some 1 \<and>
   (\<exists>s1 s2. handleSizeChange 5 5 painted_state = Inr s1 \<and>
      handleSizeChange (- 5) (- 5) s1 = Inr s2 \<and>
      numRows s2 = 50 \<and> numCols s2 = 50 \<and>
      grid s2 = replicate 50 (replicate 50 (Some 0)) \<and>
      generations s2 = 0 \<and> population s2 = [])"
proof -
  have dims: "numRows painted_state = 50 \<and> numCols painted_state = 50"
    by (simp add: painted_state_def initial_state_def)
  have live: "grid painted_state ! 25 ! 25 = Some 1"
    by (simp add: painted_state_def initial_state_def)
  show ?thesis
    using resize_clamps_and_clears [of 0 0 painted_state] dims live by blast
qed

section \<open>Loading\<close>

text \<open>
  C1, as stated, fails: a file whose grid has a row of the wrong length is not rejected.
  Loaded into the 3 by 3 example state it returns normally, and the grid, the generation
  counter and the dimensions are the file's.
\<close>

theorem load_accepts_jagged_grid:
  "handleLoad (Some jagged_payload) (as_loaded tiny_state) =
     Inr ((as_loaded tiny_state)
            \<lparr>ld_grid := JArr [JArr [JNum 1, JNum 0, JNum 1], JArr [JNum 1],
                              JArr [JNum 0, JNum 0, JNum 0]],
             ld_generations := JNum 7, ld_numRows := JNum 3, ld_numCols := JNum 3\<rparr>) \<and>
   ld_grid (as_loaded tiny_state) =
     JArr [JArr [JNum 0, JNum 1, JNum 0], JArr [JNum 0, JNum 1, JNum 0],
           JArr [JNum 0, JNum 1, JNum 0]] \<and>
   ld_grid (as_loaded tiny_state) \<noteq>
     JArr [JArr [JNum 1, JNum 0, JNum 1], JArr [JNum 1], JArr [JNum 0, JNum 0, JNum 0]] \<and>
   ld_generations (as_loaded tiny_state) = JNum 4"
  by (simp add: handleLoad_def jagged_payload_def as_loaded_def tiny_state_def
      grid_value_def cell_value_def)

text \<open>
  C1, amended. Load does not validate. A file that does not parse, or parses to
  \<open>null\<close>, is rejected with an error and no new state. Every other parsed value is
  accepted whatever its shape: the grid, the generation counter and both dimensions
  become the values of its \<open>grid\<close>, \<open>generations\<close>, \<open>numRows\<close> and \<open>numCols\<close>
  entries (\<open>undefined\<close> where an entry is missing), all four together.
\<close>

theorem load_stores_payload_unchecked:
  "handleLoad None s = Inl SyntaxError \<and>
   handleLoad (Some JNull) s = Inl TypeError \<and>
   (content \<noteq> JNull \<and> content \<noteq> JUndefined \<longrightarrow>
      (\<exists>s'. handleLoad (Some content) s = Inr s' \<and>
         get_prop content ''grid'' = Inr (ld_grid s') \<and>
         get_prop content ''generations'' = Inr (ld_generations s') \<and>
         get_prop content ''numRows'' = Inr (ld_numRows s') \<and>
         get_prop content ''numCols'' = Inr (ld_numCols s')))"
proof -
  have "\<exists>s'. handleLoad (Some content) s = Inr s' \<and>
         get_prop content ''grid'' = Inr (ld_grid s') \<and>
         get_prop content ''generations'' = Inr (ld_generations s') \<and>
         get_prop content ''numRows'' = Inr (ld_numRows s') \<and>
         get_prop content ''numCols'' = Inr (ld_numCols s')"
    if "content \<noteq> JNull" "content \<noteq> JUndefined"
    using that by (cases content) (simp_all add: handleLoad_def)
  then show ?thesis by (simp add: handleLoad_def)
qed

theorem load_stores_payload_unchecked_witness:
  "saved_payload \<noteq> JNull \<and> saved_payload \<noteq> JUndefined \<and>
   (\<exists>s'. handleLoad (Some saved_payload) (as_loaded tiny_state) = Inr s' \<and>
      ld_grid s' = JArr [JArr [JNum 1, JNum 0], JArr [JNum 0, JNum 1]] \<and>
      ld_generations s' = JNum 12 \<and> ld_numRows s' = JNum 2 \<and> ld_numCols s' = JNum 2)"
  using load_stores_payload_unchecked [of "as_loaded tiny_state" saved_payload]
  by (auto simp add: saved_payload_def)

section \<open>The step on a well-formed grid\<close>

lemma upto_map_int: "[0..int n - 1] = map int [0..<n]"
proof (induction n)
  case 0
  show ?case by simp
next
  case (Suc n)
  have "[0..int (Suc n) - 1] = [0..int n - 1] @ [int n]"
    using upto_rec2 [of 0 "int n"] by simp
  with Suc show ?case by simp
qed

lemma upto_from_zero: "0 \<le> n \<Longrightarrow> [0..n - 1] = map int [0..<nat n]"
  using upto_map_int [of "nat n"] by simp

lemma js_rem_nonneg: "0 \<le> a \<Longrightarrow> 0 < b \<Longrightarrow> js_rem a b = Some (a mod b)"
  by (cases "a = 0") (simp_all add: js_rem_def)

lemma wrap_mod: "0 \<le> i + x + n \<Longrightarrow> 0 < n \<Longrightarrow> wrap i x n = Some ((i + x) mod n)"
  by (simp add: wrap_def js_rem_nonneg)

lemma rectangular_row:
  "rectangular R C g \<Longrightarrow> 0 \<le> a \<Longrightarrow> a < R \<Longrightarrow> length (g ! nat a) = nat C"
  by (simp add: rectangular_def)

lemma get_cell_inside:
  assumes "rectangular R C g" "0 \<le> a" "a < R" "0 \<le> b" "b < C"
  shows "get_cell g (Some a) (Some b) = Inr (cell_at g a b)"
  using assms rectangular_row [OF assms(1-3)]
  by (simp add: get_cell_def elem_def cell_at_def rectangular_def)

lemma binary_cell:
  assumes "rectangular R C g" "binary g" "0 \<le> a" "a < R" "0 \<le> b" "b < C"
  shows "cell_at g a b = Some 0 \<or> cell_at g a b = Some 1"
proof -
  have "g ! nat a \<in> set g" using assms by (simp add: rectangular_def)
  moreover have "g ! nat a ! nat b \<in> set (g ! nat a)"
    using assms rectangular_row [OF assms(1,3,4)] by simp
  ultimately show ?thesis using assms(2) by (auto simp add: binary_def cell_at_def)
qed

lemma count_neighbors:
  assumes "rectangular R C g" "binary g" "0 \<le> i" "i < R" "0 \<le> j" "j < C"
    and "\<forall>(x, y) \<in> set offs. - 1 \<le> x \<and> - 1 \<le> y"
  shows "for_each offs (add_neighbor g R C i j) (Some a) =
           (None, Some (a + (\<Sum>(x, y) \<leftarrow> offs.
              the (cell_at g ((i + x + R) mod R) ((j + y + C) mod C)))))"
  using assms(7)
proof (induction offs arbitrary: a)
  case Nil
  show ?case by simp
next
  case (Cons off offs)
  obtain x y where off: "off = (x, y)" by (cases off)
  with Cons.prems have xy: "- 1 \<le> x" "- 1 \<le> y" by auto
  let ?a = "(i + x) mod R" and ?b = "(j + y) mod C"
  have wi: "wrap i x R = Some ?a" using xy assms by (intro wrap_mod) auto
  have wj: "wrap j y C = Some ?b" using xy assms by (intro wrap_mod) auto
  have ra: "0 \<le> ?a" "?a < R" using assms by auto
  have rb: "0 \<le> ?b" "?b < C" using assms by auto
  have gc: "get_cell g (Some ?a) (Some ?b) = Inr (cell_at g ?a ?b)"
    using get_cell_inside [OF assms(1) ra rb] .
  obtain c where c: "cell_at g ?a ?b = Some c"
    using binary_cell [OF assms(1,2) ra rb] by auto
  have "add_neighbor g R C i j off (Some a) = (None, Some (a + c))"
    by (simp add: add_neighbor_def off wi wj gc c js_add_def)
  moreover have "for_each offs (add_neighbor g R C i j) (Some (a + c)) =
           (None, Some (a + c + (\<Sum>(x, y) \<leftarrow> offs.
              the (cell_at g ((i + x + R) mod R) ((j + y + C) mod C)))))"
    using Cons.IH [of "a + c"] Cons.prems by simp
  ultimately show ?case by (simp add: off c)
qed

lemma operations_are_the_offsets:
  "set operations = neighbor_offsets" "distinct operations"
  by (auto simp add: operations_def neighbor_offsets_def)

lemma count_operations:
  assumes "rectangular R C g" "binary g" "0 \<le> i" "i < R" "0 \<le> j" "j < C"
  shows "for_each operations (add_neighbor g R C i j) (Some 0) =
           (None, Some (toroidal_neighbors R C g i j))"
proof -
  have "\<forall>(x, y) \<in> set operations. - 1 \<le> x \<and> - 1 \<le> y"
    by (simp add: operations_def)
  from count_neighbors [OF assms this, of 0]
  show ?thesis
    by (simp add: toroidal_neighbors_def sum_list_distinct_conv_sum_set
        operations_are_the_offsets)
qed


lemma put_cell_inside:
  assumes "0 \<le> a" "a < int (length g)" "0 \<le> b" "b < int (length (g ! nat a))"
  shows "put_cell g (Some a) (Some b) v = Inr (g[nat a := (g ! nat a)[nat b := Some v]])"
  using assms by (simp add: put_cell_def put_elem_def elem_def)

lemma update_cell_inside:
  assumes "rectangular R C g" "binary g" "simulationModes mode = Some rule"
    and "0 \<le> i" "i < R" "0 \<le> j" "j < C"
    and "length ng = nat R" "length (ng ! nat i) = nat C"
  shows "update_cell g R C mode i j (ng, p) =
           (None, (ng[nat i := (ng ! nat i)[nat j := Some (spec_cell rule R C g i j)]],
                   p + spec_cell rule R C g i j))"
proof -
  have "put_cell ng (Some i) (Some j) (spec_cell rule R C g i j) =
          Inr (ng[nat i := (ng ! nat i)[nat j := Some (spec_cell rule R C g i j)]])"
    using assms by (intro put_cell_inside) auto
  then show ?thesis
    using count_operations [OF assms(1,2,4-7)] get_cell_inside [OF assms(1,4-7)] assms(3)
    by (simp add: update_cell_def spec_cell_def next_state_def)
qed

lemma row_loop:
  assumes "rectangular R C g" "binary g" "simulationModes mode = Some rule"
    and "0 \<le> i" "i < R"
  shows "\<forall>j \<in> set js. 0 \<le> j \<and> j < C \<Longrightarrow> length ng = nat R \<Longrightarrow>
         length (ng ! nat i) = nat C \<Longrightarrow>
         for_each js (update_cell g R C mode i) (ng, p) =
           (None, (ng[nat i := foldl (\<lambda>row j. row[nat j := Some (spec_cell rule R C g i j)])
                                  (ng ! nat i) js],
                   p + (\<Sum>j \<leftarrow> js. spec_cell rule R C g i j)))"
proof (induction js arbitrary: ng p)
  case Nil
  then show ?case by simp
next
  case (Cons j js)
  let ?v = "spec_cell rule R C g i j"
  let ?ng = "ng[nat i := (ng ! nat i)[nat j := Some ?v]]"
  have j: "0 \<le> j" "j < C" using Cons.prems by auto
  have one: "update_cell g R C mode i j (ng, p) = (None, (?ng, p + ?v))"
    using update_cell_inside [OF assms(1-5) j Cons.prems(2,3)] .
  have i: "nat i < length ng" using assms(4,5) Cons.prems(2) by simp
  have "for_each js (update_cell g R C mode i) (?ng, p + ?v) =
          (None, (?ng[nat i := foldl (\<lambda>row j. row[nat j := Some (spec_cell rule R C g i j)])
                                  (?ng ! nat i) js],
                  p + ?v + (\<Sum>j \<leftarrow> js. spec_cell rule R C g i j)))"
    using Cons.prems i by (intro Cons.IH) auto
  with one i show ?case by (simp add: add.assoc)
qed

lemma foldl_update_prefix:
  "k \<le> length xs \<Longrightarrow>
   foldl (\<lambda>ys n. ys[nat n := F n]) xs (map int [0..<k]) = map (\<lambda>n. F (int n)) [0..<k] @ drop k xs"
proof (induction k)
  case 0
  show ?case by simp
next
  case (Suc k)
  then have k: "k < length xs" by simp
  have "(map (\<lambda>n. F (int n)) [0..<k] @ drop k xs)[k := F (int k)] =
          map (\<lambda>n. F (int n)) [0..<k] @ (drop k xs)[0 := F (int k)]"
    by (simp add: list_update_append)
  also have "(drop k xs)[0 := F (int k)] = F (int k) # drop (Suc k) xs"
    using k by (simp add: Cons_nth_drop_Suc [symmetric])
  finally show ?case using Suc by simp
qed

lemma foldl_update_all:
  "length xs = k \<Longrightarrow>
   foldl (\<lambda>ys n. ys[nat n := F n]) xs (map int [0..<k]) = map (\<lambda>n. F (int n)) [0..<k]"
  using foldl_update_prefix [of k xs F] by simp

lemma full_row_loop:
  assumes "rectangular R C g" "binary g" "simulationModes mode = Some rule"
    and "0 \<le> i" "i < R" "length ng = nat R" "length (ng ! nat i) = nat C"
  shows "for_each [0..C - 1] (update_cell g R C mode i) (ng, p) =
           (None, (ng[nat i := map (\<lambda>j. Some (spec_cell rule R C g i (int j))) [0..<nat C]],
                   p + (\<Sum>j \<leftarrow> [0..<nat C]. spec_cell rule R C g i (int j))))"
proof -
  have C: "0 \<le> C" using assms(1) by (simp add: rectangular_def)
  have js: "[0..C - 1] = map int [0..<nat C]" using C by (rule upto_from_zero)
  have "\<forall>j \<in> set (map int [0..<nat C]). 0 \<le> j \<and> j < C" by auto
  from row_loop [OF assms(1-5) this assms(6,7), of p]
  show ?thesis
    unfolding js using foldl_update_all [OF assms(7)]
    by (simp add: comp_def)
qed


lemma rectangular_update:
  "rectangular R C ng \<Longrightarrow> length row = nat C \<Longrightarrow> rectangular R C (ng[k := row])"
  by (auto simp add: rectangular_def dest!: set_update_subset_insert [THEN subsetD])

lemma grid_loop:
  assumes "rectangular R C g" "binary g" "simulationModes mode = Some rule"
  shows "\<forall>i \<in> set rs. 0 \<le> i \<and> i < R \<Longrightarrow> rectangular R C ng \<Longrightarrow>
         for_each rs (\<lambda>i. for_each [0..C - 1] (update_cell g R C mode i)) (ng, p) =
           (None,
            (foldl (\<lambda>G i. G[nat i := map (\<lambda>j. Some (spec_cell rule R C g i (int j))) [0..<nat C]])
               ng rs,
             p + (\<Sum>i \<leftarrow> rs. \<Sum>j \<leftarrow> [0..<nat C]. spec_cell rule R C g i (int j))))"
proof (induction rs arbitrary: ng p)
  case Nil
  then show ?case by simp
next
  case (Cons i rs)
  let ?row = "map (\<lambda>j. Some (spec_cell rule R C g i (int j))) [0..<nat C]"
  let ?sum = "\<Sum>j \<leftarrow> [0..<nat C]. spec_cell rule R C g i (int j)"
  have i: "0 \<le> i" "i < R" using Cons.prems by auto
  have len: "length ng = nat R" "length (ng ! nat i) = nat C"
    using Cons.prems(2) rectangular_row [OF Cons.prems(2) i] by (simp_all add: rectangular_def)
  have one: "for_each [0..C - 1] (update_cell g R C mode i) (ng, p) =
               (None, (ng[nat i := ?row], p + ?sum))"
    using full_row_loop [OF assms i len] .
  have "rectangular R C (ng[nat i := ?row])"
    using Cons.prems(2) by (intro rectangular_update) simp_all
  then have "for_each rs (\<lambda>i. for_each [0..C - 1] (update_cell g R C mode i))
               (ng[nat i := ?row], p + ?sum) =
           (None,
            (foldl (\<lambda>G i. G[nat i := map (\<lambda>j. Some (spec_cell rule R C g i (int j))) [0..<nat C]])
               (ng[nat i := ?row]) rs,
             p + ?sum + (\<Sum>i \<leftarrow> rs. \<Sum>j \<leftarrow> [0..<nat C]. spec_cell rule R C g i (int j))))"
    using Cons.prems(1) by (intro Cons.IH) auto
  with one show ?case by (simp add: add.assoc)
qed

lemma spec_cell_bit: "spec_cell rule R C g i j = 0 \<or> spec_cell rule R C g i j = 1"
  by (simp add: spec_cell_def)

lemma live_in_row:
  "\<forall>x \<in> set xs. f x = 0 \<or> f x = (1::int) \<Longrightarrow>
   int (length (filter (\<lambda>c. c = Some 1) (map (\<lambda>x. Some (f x)) xs))) = (\<Sum>x \<leftarrow> xs. f x)"
  by (induction xs) auto

lemma live_cells_spec_step:
  "live_cells (spec_step rule R C g) =
     (\<Sum>i \<leftarrow> [0..<nat R]. \<Sum>j \<leftarrow> [0..<nat C]. spec_cell rule R C g (int i) (int j))"
proof -
  have "int (length (filter (\<lambda>c. c = Some 1)
           (map (\<lambda>j. Some (spec_cell rule R C g i (int j))) [0..<nat C]))) =
        (\<Sum>j \<leftarrow> [0..<nat C]. spec_cell rule R C g i (int j))" for i
    using live_in_row [of "[0..<nat C]" "\<lambda>j. spec_cell rule R C g i (int j)"] spec_cell_bit
    by blast
  then show ?thesis
    by (simp add: live_cells_def spec_step_def comp_def)
qed

lemma step_is_spec_step:
  assumes "rectangular R C g" "binary g" "simulationModes mode = Some rule"
  shows "step R C mode g = Inr (spec_step rule R C g, live_cells (spec_step rule R C g))"
proof -
  have R: "0 \<le> R" and len: "length g = nat R"
    using assms(1) by (simp_all add: rectangular_def)
  have rs: "[0..R - 1] = map int [0..<nat R]" using R by (rule upto_from_zero)
  have "\<forall>i \<in> set (map int [0..<nat R]). 0 \<le> i \<and> i < R" by auto
  from grid_loop [OF assms this assms(1), of 0]
  have "for_each [0..R - 1] (\<lambda>i. for_each [0..C - 1] (update_cell g R C mode i)) (g, 0) =
          (None, (spec_step rule R C g, live_cells (spec_step rule R C g)))"
    unfolding rs live_cells_spec_step
    using foldl_update_all [OF len,
        of "\<lambda>i. map (\<lambda>j. Some (spec_cell rule R C g i (int j))) [0..<nat C]"]
    by (simp add: spec_step_def comp_def)
  then show ?thesis by (simp add: step_def)
qed

lemma spec_step_rectangular:
  "0 \<le> R \<Longrightarrow> 0 \<le> C \<Longrightarrow> rectangular R C (spec_step rule R C g)"
  by (auto simp add: rectangular_def spec_step_def)

lemma spec_step_cell:
  "0 \<le> i \<Longrightarrow> i < R \<Longrightarrow> 0 \<le> j \<Longrightarrow> j < C \<Longrightarrow>
   cell_at (spec_step rule R C g) i j = Some (spec_cell rule R C g i j)"
  by (simp add: cell_at_def spec_step_def)

text \<open>
  C3. On a rectangular rows by cols grid of zeros and ones, with the dimensions the step
  runs with equal to the grid's and a registered rule set, one step returns a rows by
  cols grid whose value at (i, j) is 1 if the rule holds of the old value at (i, j) and
  of the sum of the old grid's eight entries at ((i+dx+rows) mod rows, (j+dy+cols) mod
  cols), and 0 otherwise; nothing of the new grid is read. The population it reports is
  the number of live cells of the new grid.
\<close>

theorem step_applies_rule_to_old_neighbours:
  assumes "rectangular rows cols g" and "binary g" and "simulationModes mode = Some rule"
  shows "\<exists>newGrid newPopulation.
           step rows cols mode g = Inr (newGrid, newPopulation) \<and>
           rectangular rows cols newGrid \<and>
           (\<forall>i j. 0 \<le> i \<and> i < rows \<and> 0 \<le> j \<and> j < cols \<longrightarrow>
              cell_at newGrid i j =
                Some (if rule (Some (toroidal_neighbors rows cols g i j)) (cell_at g i j)
                      then 1 else 0)) \<and>
           newPopulation = live_cells newGrid"
proof -
  have "0 \<le> rows" "0 \<le> cols" using assms(1) by (simp_all add: rectangular_def)
  then have "rectangular rows cols (spec_step rule rows cols g)"
    by (rule spec_step_rectangular)
  moreover have "\<forall>i j. 0 \<le> i \<and> i < rows \<and> 0 \<le> j \<and> j < cols \<longrightarrow>
      cell_at (spec_step rule rows cols g) i j =
        Some (if rule (Some (toroidal_neighbors rows cols g i j)) (cell_at g i j)
              then 1 else 0)"
    using spec_step_cell [of _ rows _ cols rule g] by (simp add: spec_cell_def)
  ultimately show ?thesis
    using step_is_spec_step [OF assms] by blast
qed

theorem step_applies_rule_to_old_neighbours_witness:
  "rectangular 5 5 upright_in_five \<and> binary upright_in_five \<and>
   simulationModes ''conway'' = Some conway \<and>
   step 5 5 ''conway'' upright_in_five = Inr (flat_in_five, 3) \<and>
   rectangular 5 5 flat_in_five \<and>
   toroidal_neighbors 5 5 upright_in_five 2 1 = 3 \<and>
   cell_at upright_in_five 2 1 = Some 0 \<and> cell_at flat_in_five 2 1 = Some 1 \<and>
   toroidal_neighbors 5 5 upright_in_five 1 2 = 1 \<and>
   cell_at upright_in_five 1 2 = Some 1 \<and> cell_at flat_in_five 1 2 = Some 0 \<and>
   toroidal_neighbors 5 5 upright_in_five 2 2 = 2 \<and>
   cell_at upright_in_five 2 2 = Some 1 \<and> cell_at flat_in_five 2 2 = Some 1 \<and>
   (\<exists>newGrid newPopulation.
      step 5 5 ''conway'' upright_in_five = Inr (newGrid, newPopulation) \<and>
      newGrid = flat_in_five \<and> newPopulation = 3 \<and>
      rectangular 5 5 newGrid \<and>
      (\<forall>i j. 0 \<le> i \<and> i < 5 \<and> 0 \<le> j \<and> j < 5 \<longrightarrow>
         cell_at newGrid i j =
           Some (if conway (Some (toroidal_neighbors 5 5 upright_in_five i j))
                   (cell_at upright_in_five i j)
                 then 1 else 0)) \<and>
      newPopulation = live_cells newGrid)"
proof -
  have r: "rectangular 5 5 upright_in_five"
    by (simp add: rectangular_def upright_in_five_def)
  have b: "binary upright_in_five"
    by (simp add: binary_def upright_in_five_def)
  have m: "simulationModes ''conway'' = Some conway"
    by (simp add: simulationModes_def)
  have st: "step 5 5 ''conway'' upright_in_five = Inr (flat_in_five, 3)"
    by code_simp
  have n: "toroidal_neighbors 5 5 upright_in_five 2 1 = 3"
    "toroidal_neighbors 5 5 upright_in_five 1 2 = 1"
    "toroidal_neighbors 5 5 upright_in_five 2 2 = 2"
    by (simp_all add: toroidal_neighbors_def neighbor_offsets_def cell_at_def
        upright_in_five_def)
  have c: "cell_at upright_in_five 2 1 = Some 0" "cell_at flat_in_five 2 1 = Some 1"
    "cell_at upright_in_five 1 2 = Some 1" "cell_at flat_in_five 1 2 = Some 0"
    "cell_at upright_in_five 2 2 = Some 1" "cell_at flat_in_five 2 2 = Some 1"
    by (simp_all add: cell_at_def upright_in_five_def flat_in_five_def)
  from step_applies_rule_to_old_neighbours [OF r b m] st
  have all: "rectangular 5 5 flat_in_five \<and>
   (\<forall>i j. 0 \<le> i \<and> i < 5 \<and> 0 \<le> j \<and> j < 5 \<longrightarrow>
      cell_at flat_in_five i j =
        Some (if conway (Some (toroidal_neighbors 5 5 upright_in_five i j))
                (cell_at upright_in_five i j)
              then 1 else 0)) \<and>
   3 = live_cells flat_in_five"
    by simp
  have "\<exists>newGrid newPopulation.
      step 5 5 ''conway'' upright_in_five = Inr (newGrid, newPopulation) \<and>
      newGrid = flat_in_five \<and> newPopulation = 3 \<and>
      rectangular 5 5 newGrid \<and>
      (\<forall>i j. 0 \<le> i \<and> i < 5 \<and> 0 \<le> j \<and> j < 5 \<longrightarrow>
         cell_at newGrid i j =
           Some (if conway (Some (toroidal_neighbors 5 5 upright_in_five i j))
                   (cell_at upright_in_five i j)
                 then 1 else 0)) \<and>
      newPopulation = live_cells newGrid"
    using st all by simp
  with r b m st n c show ?thesis by simp
qed

section \<open>Wrapped indices\<close>

text \<open>
  C4. In a grid with at least one row and one column, for every cell (i, j) of the grid
  and all offsets dx, dy in {-1, 0, 1}, the indices the code computes are
  (i+dx+rows) mod rows and (j+dy+cols) mod cols and lie in [0,rows) and [0,cols); the read
  at them finds a row and an entry, and the step as a whole returns without an error.
\<close>

theorem wrapped_indices_in_bounds:
  assumes "1 \<le> rows" and "1 \<le> cols"
    and "0 \<le> i" and "i < rows" and "0 \<le> j" and "j < cols"
    and "dx \<in> {- 1, 0, 1}" and "dy \<in> {- 1, 0, 1}"
  shows "\<exists>a b. wrap i dx rows = Some a \<and> a = (i + dx + rows) mod rows \<and>
           wrap j dy cols = Some b \<and> b = (j + dy + cols) mod cols \<and>
           0 \<le> a \<and> a < rows \<and> 0 \<le> b \<and> b < cols \<and>
           (rectangular rows cols g \<longrightarrow>
              get_cell g (wrap i dx rows) (wrap j dy cols) = Inr (cell_at g a b)) \<and>
           (rectangular rows cols g \<and> binary g \<and> simulationModes mode \<noteq> None \<longrightarrow>
              (\<exists>r. step rows cols mode g = Inr r))"
proof -
  let ?a = "(i + dx) mod rows" and ?b = "(j + dy) mod cols"
  have wa: "wrap i dx rows = Some ?a" using assms by (intro wrap_mod) auto
  have wb: "wrap j dy cols = Some ?b" using assms by (intro wrap_mod) auto
  have ra: "0 \<le> ?a" "?a < rows" using assms by auto
  have rb: "0 \<le> ?b" "?b < cols" using assms by auto
  have rd: "get_cell g (wrap i dx rows) (wrap j dy cols) = Inr (cell_at g ?a ?b)"
    if "rectangular rows cols g"
    using get_cell_inside [OF that ra rb] by (simp add: wa wb)
  have st: "\<exists>r. step rows cols mode g = Inr r"
    if "rectangular rows cols g" "binary g" "simulationModes mode \<noteq> None"
    using that step_is_spec_step [of rows cols g mode] by auto
  show ?thesis
    using wa wb ra rb rd st by simp
qed

theorem wrapped_indices_in_bounds_witness:
  "(1::int) \<le> 3 \<and> (0::int) \<le> 0 \<and> (0::int) < 3 \<and> (0::int) \<le> 2 \<and> (2::int) < 3 \<and>
   (- 1::int) \<in> {- 1, 0, 1} \<and> (1::int) \<in> {- 1, 0, 1} \<and>
   wrap 0 (- 1) 3 = Some 2 \<and> wrap 2 1 3 = Some 0 \<and>
   rectangular 3 3 (grid tiny_state) \<and> binary (grid tiny_state) \<and>
   simulationModes ''conway'' \<noteq> None \<and>
   get_cell (grid tiny_state) (wrap 0 (- 1) 3) (wrap 2 1 3) = Inr (cell_at (grid tiny_state) 2 0) \<and>
   (\<exists>r. step 3 3 ''conway'' (grid tiny_state) = Inr r)"
proof -
  have r: "rectangular 3 3 (grid tiny_state)"
    by (simp add: rectangular_def tiny_state_def)
  have b: "binary (grid tiny_state)"
    by (simp add: binary_def tiny_state_def)
  have m: "simulationModes ''conway'' \<noteq> None"
    by (simp add: simulationModes_def)
  show ?thesis
    using wrapped_indices_in_bounds [of 3 3 0 2 "- 1" 1 "grid tiny_state" "''conway''"] r b m
    by auto
qed

section \<open>Stamping a named pattern\<close>

lemma rectangular_with_cell:
  "rectangular R C g \<Longrightarrow> 0 \<le> a \<Longrightarrow> a < R \<Longrightarrow> rectangular R C (with_cell g a b v)"
  unfolding with_cell_def
  by (intro rectangular_update) (simp_all add: rectangular_row)

lemma put_cell_rectangular:
  assumes "rectangular R C g" "0 \<le> a" "a < R" "0 \<le> b" "b < C"
  shows "put_cell g (Some a) (Some b) v = Inr (with_cell g a b v)"
  unfolding with_cell_def
  using assms rectangular_row [OF assms(1-3)]
  by (intro put_cell_inside) (simp_all add: rectangular_def)

lemma for_each_stamp:
  "rectangular R C ng \<Longrightarrow>
   \<forall>(x, y) \<in> set offs. 0 \<le> R div 2 + x \<and> R div 2 + x < R \<and> 0 \<le> C div 2 + y \<and> C div 2 + y < C \<Longrightarrow>
   for_each offs (stamp R C) ng =
     (None, foldl (\<lambda>G (x, y). with_cell G (R div 2 + x) (C div 2 + y) 1) ng offs)"
proof (induction offs arbitrary: ng)
  case Nil
  show ?case by simp
next
  case (Cons off offs)
  obtain x y where off: "off = (x, y)" by (cases off)
  with Cons.prems have in_grid:
    "0 \<le> R div 2 + x" "R div 2 + x < R" "0 \<le> C div 2 + y" "C div 2 + y < C"
    by auto
  have one: "stamp R C off ng = (None, with_cell ng (R div 2 + x) (C div 2 + y) 1)"
    using put_cell_rectangular [OF Cons.prems(1) in_grid]
    by (simp add: stamp_def off)
  have "rectangular R C (with_cell ng (R div 2 + x) (C div 2 + y) 1)"
    using Cons.prems(1) in_grid(1,2) by (rule rectangular_with_cell)
  then have "for_each offs (stamp R C) (with_cell ng (R div 2 + x) (C div 2 + y) 1) =
     (None, foldl (\<lambda>G (x, y). with_cell G (R div 2 + x) (C div 2 + y) 1)
              (with_cell ng (R div 2 + x) (C div 2 + y) 1) offs)"
    using Cons.prems(2) by (intro Cons.IH) auto
  with one show ?case by (simp add: off)
qed

lemma foldl_with_cell_rectangular:
  "rectangular R C ng \<Longrightarrow>
   \<forall>(x, y) \<in> set offs. 0 \<le> cx + x \<and> cx + x < R \<Longrightarrow>
   rectangular R C (foldl (\<lambda>G (x, y). with_cell G (cx + x) (cy + y) v) ng offs)"
  by (induction offs arbitrary: ng) (auto simp add: rectangular_with_cell)

lemma generateEmptyGrid_small:
  "0 \<le> R \<Longrightarrow> R \<le> 100 \<Longrightarrow> 0 \<le> C \<Longrightarrow> C \<le> 100 \<Longrightarrow>
   generateEmptyGrid R C = Inr (replicate (nat R) (replicate (nat C) (Some 0)))"
  by (simp add: generateEmptyGrid_def)

lemma rectangular_replicate:
  "0 \<le> R \<Longrightarrow> 0 \<le> C \<Longrightarrow> rectangular R C (replicate (nat R) (replicate (nat C) c))"
  by (simp add: rectangular_def)

lemma patterns_offsets:
  assumes "patterns name = Some offsets"
  shows "\<forall>(x, y) \<in> set offsets. 0 \<le> x \<and> x \<le> 2 \<and> 0 \<le> y \<and> y \<le> 3"
  using assms by (auto simp add: patterns_def split: if_splits)

lemma handlePatternSelect_stamps:
  assumes "10 \<le> numRows s" "numRows s \<le> 100" "10 \<le> numCols s" "numCols s \<le> 100"
    and "patterns name = Some offsets"
  shows "handlePatternSelect name s =
           Inr (s\<lparr>grid := foldl (\<lambda>G (x, y). with_cell G (numRows s div 2 + x) (numCols s div 2 + y) 1)
                            (replicate (nat (numRows s)) (replicate (nat (numCols s)) (Some 0)))
                            offsets,
                  generations := 0, population := []\<rparr>)"
proof -
  let ?R = "numRows s" and ?C = "numCols s"
  have e: "generateEmptyGrid ?R ?C = Inr (replicate (nat ?R) (replicate (nat ?C) (Some 0)))"
    using assms(1-4) by (intro generateEmptyGrid_small) auto
  have r: "rectangular ?R ?C (replicate (nat ?R) (replicate (nat ?C) (Some 0)))"
    using assms(1-4) by (intro rectangular_replicate) auto
  have "\<forall>(x, y) \<in> set offsets.
          0 \<le> ?R div 2 + x \<and> ?R div 2 + x < ?R \<and> 0 \<le> ?C div 2 + y \<and> ?C div 2 + y < ?C"
    using patterns_offsets [OF assms(5)] assms(1-4) by fastforce
  from for_each_stamp [OF r this] show ?thesis
    by (simp add: handlePatternSelect_def e assms(5))
qed

text \<open>
  C10. For dimensions in [10,100] and each of the patterns glider, blinker and toad,
  every index (floor(rows/2) + dr, floor(cols/2) + dc) the pattern stamps lies inside
  the grid; \<open>handlePatternSelect\<close> then returns without an error and its grid is still
  rows by cols, so no write went outside it.
\<close>

theorem named_patterns_stay_inside:
  assumes "10 \<le> rows" and "rows \<le> 100" and "10 \<le> cols" and "cols \<le> 100"
    and "name \<in> {''glider'', ''blinker'', ''toad''}"
  shows "\<exists>offsets. patterns name = Some offsets \<and>
           (\<forall>(dr, dc) \<in> set offsets.
              0 \<le> rows div 2 + dr \<and> rows div 2 + dr < rows \<and>
              0 \<le> cols div 2 + dc \<and> cols div 2 + dc < cols) \<and>
           (numRows s = rows \<and> numCols s = cols \<longrightarrow>
              (\<exists>s'. handlePatternSelect name s = Inr s' \<and> rectangular rows cols (grid s')))"
proof -
  obtain offsets where p: "patterns name = Some offsets"
    using assms(5) by (auto simp add: patterns_def)
  have inside: "\<forall>(dr, dc) \<in> set offsets.
              0 \<le> rows div 2 + dr \<and> rows div 2 + dr < rows \<and>
              0 \<le> cols div 2 + dc \<and> cols div 2 + dc < cols"
    using patterns_offsets [OF p] assms(1-4) by fastforce
  have "\<exists>s'. handlePatternSelect name s = Inr s' \<and> rectangular rows cols (grid s')"
    if dims: "numRows s = rows" "numCols s = cols"
  proof -
    have "rectangular rows cols
            (foldl (\<lambda>G (x, y). with_cell G (rows div 2 + x) (cols div 2 + y) 1)
               (replicate (nat rows) (replicate (nat cols) (Some 0))) offsets)"
      using inside assms(1-4)
      by (intro foldl_with_cell_rectangular rectangular_replicate) auto
    then show ?thesis
      using handlePatternSelect_stamps [of s name offsets] assms(1-4) p dims by simp
  qed
  with p inside show ?thesis by blast
qed

theorem named_patterns_stay_inside_witness:
  "(10::int) \<le> 50 \<and> (50::int) \<le> 100 \<and> ''toad'' \<in> {''glider'', ''blinker'', ''toad''} \<and>
   numRows initial_state = 50 \<and> numCols initial_state = 50 \<and>
   (\<exists>offsets. patterns ''toad'' = Some offsets \<and>
      (\<forall>(dr, dc) \<in> set offsets.
         0 \<le> 50 div 2 + dr \<and> 50 div 2 + dr < 50 \<and> 0 \<le> 50 div 2 + dc \<and> 50 div 2 + dc < 50) \<and>
      (\<exists>s'. handlePatternSelect ''toad'' initial_state = Inr s' \<and> rectangular 50 50 (grid s')))"
proof -
  have d: "numRows initial_state = 50 \<and> numCols initial_state = 50"
    by (simp add: initial_state_def)
  show ?thesis
    using named_patterns_stay_inside [of 50 50 "''toad''" initial_state] d by simp
qed

section \<open>Editing with the brush\<close>

lemma wrap_value:
  assumes "0 < n"
  shows "wrap i x n =
           Some (if 0 \<le> i + x + n \<or> n dvd (i + x) then (i + x) mod n else (i + x) mod n - n)"
proof (cases "0 \<le> i + x + n")
  case True
  then show ?thesis using assms by (simp add: wrap_mod)
next
  case False
  then have neg: "i + x + n < 0" by simp
  have m: "(- (i + x + n)) mod n = (if (i + x) mod n = 0 then 0 else n - (i + x) mod n)"
    using zmod_zminus1_eq_if [of "i + x + n" n] by simp
  have "js_rem (i + x + n) n = Some (- ((- (i + x + n)) mod n))"
    using neg assms by (simp add: js_rem_def)
  then show ?thesis
    using neg assms m by (simp add: wrap_def dvd_eq_mod_eq_0)
qed

lemma cell_at_with_cell:
  assumes "rectangular R C g" "0 \<le> a" "a < R" "0 \<le> b" "b < C"
    and "0 \<le> a'" "a' < R" "0 \<le> b'" "b' < C"
  shows "cell_at (with_cell g a b v) a' b' =
           (if a' = a \<and> b' = b then Some v else cell_at g a' b')"
proof -
  have "length (g ! nat a) = nat C" using assms by (intro rectangular_row) auto
  moreover have "length g = nat R" using assms(1) by (simp add: rectangular_def)
  ultimately show ?thesis
    using assms(2-) by (auto simp add: cell_at_def with_cell_def nth_list_update)
qed

lemma put_cell_negative_column:
  assumes "rectangular R C g" "0 \<le> a" "a < R" "b < 0"
  shows "put_cell g (Some a) (Some b) v = Inr g"
  using assms by (simp add: put_cell_def put_elem_def rectangular_def)

lemma put_cell_negative_row:
  "a < 0 \<Longrightarrow> put_cell g (Some a) b v = Inl TypeError"
  by (simp add: put_cell_def)

text \<open>
  A loop that paints, in one row \<open>a0\<close>, the column \<open>col y\<close> for each \<open>y\<close> that is
  \<open>good\<close> and does nothing for the others.
\<close>

lemma row_painting_loop:
  assumes body: "\<And>y G. rectangular R C G \<Longrightarrow>
                   f y G = (None, if good y then with_cell G a0 (col y) v else G)"
    and a0: "0 \<le> a0" "a0 < R"
    and col: "\<And>y. 0 \<le> col y \<and> col y < C"
  shows "rectangular R C ng \<Longrightarrow>
         \<exists>G. for_each ys f ng = (None, G) \<and> rectangular R C G \<and>
           (\<forall>a b. 0 \<le> a \<and> a < R \<and> 0 \<le> b \<and> b < C \<longrightarrow>
              cell_at G a b =
                (if a = a0 \<and> (\<exists>y \<in> set ys. b = col y \<and> good y) then Some v
                 else cell_at ng a b))"
proof (induction ys arbitrary: ng)
  case Nil
  then show ?case by simp
next
  case (Cons y ys)
  let ?G = "if good y then with_cell ng a0 (col y) v else ng"
  have one: "f y ng = (None, ?G)"
    using Cons.prems by (rule body)
  have r: "rectangular R C ?G"
    using Cons.prems a0 by (simp add: rectangular_with_cell)
  have c: "cell_at ?G a b =
             (if good y \<and> a = a0 \<and> b = col y then Some v else cell_at ng a b)"
    if "0 \<le> a" "a < R" "0 \<le> b" "b < C" for a b
    using cell_at_with_cell [OF Cons.prems a0 _ _ that, of "col y" v] col [of y] by auto
  from Cons.IH [OF r] obtain G where
    G: "for_each ys f ?G = (None, G)" "rectangular R C G"
    and cells: "\<forall>a b. 0 \<le> a \<and> a < R \<and> 0 \<le> b \<and> b < C \<longrightarrow>
              cell_at G a b =
                (if a = a0 \<and> (\<exists>y \<in> set ys. b = col y \<and> good y) then Some v
                 else cell_at ?G a b)"
    by blast
  have "for_each (y # ys) f ng = (None, G)"
    using one G(1) by simp
  moreover have "cell_at G a b =
                (if a = a0 \<and> (\<exists>y \<in> set (y # ys). b = col y \<and> good y) then Some v
                 else cell_at ng a b)"
    if ab: "0 \<le> a" "a < R" "0 \<le> b" "b < C" for a b
  proof -
    have "cell_at G a b =
            (if a = a0 \<and> (\<exists>y \<in> set ys. b = col y \<and> good y) then Some v
             else cell_at ?G a b)"
      using cells ab by blast
    then show ?thesis unfolding c [OF ab] by auto
  qed
  ultimately show ?case using G(2) by blast
qed

text \<open>A loop over rows, each of which paints the columns \<open>P\<close> of its row \<open>row x\<close>.\<close>

lemma grid_painting_loop:
  assumes body: "\<And>x G. x \<in> set xs \<Longrightarrow> rectangular R C G \<Longrightarrow>
                   \<exists>G'. g x G = (None, G') \<and> rectangular R C G' \<and>
                     (\<forall>a b. 0 \<le> a \<and> a < R \<and> 0 \<le> b \<and> b < C \<longrightarrow>
                        cell_at G' a b = (if a = row x \<and> P b then Some v else cell_at G a b))"
  shows "rectangular R C ng \<Longrightarrow>
         \<exists>G. for_each xs g ng = (None, G) \<and> rectangular R C G \<and>
           (\<forall>a b. 0 \<le> a \<and> a < R \<and> 0 \<le> b \<and> b < C \<longrightarrow>
              cell_at G a b =
                (if (\<exists>x \<in> set xs. a = row x) \<and> P b then Some v else cell_at ng a b))"
  using body
proof (induction xs arbitrary: ng)
  case Nil
  then show ?case by simp
next
  case (Cons x xs)
  from Cons.prems(2) [of x ng] Cons.prems(1) obtain G1 where
    G1: "g x ng = (None, G1)" "rectangular R C G1"
    and c1: "\<forall>a b. 0 \<le> a \<and> a < R \<and> 0 \<le> b \<and> b < C \<longrightarrow>
               cell_at G1 a b = (if a = row x \<and> P b then Some v else cell_at ng a b)"
    by auto
  have "\<exists>G. for_each xs g G1 = (None, G) \<and> rectangular R C G \<and>
           (\<forall>a b. 0 \<le> a \<and> a < R \<and> 0 \<le> b \<and> b < C \<longrightarrow>
              cell_at G a b =
                (if (\<exists>x \<in> set xs. a = row x) \<and> P b then Some v else cell_at G1 a b))"
    using G1(2) Cons.prems(2) by (intro Cons.IH) simp_all
  then obtain G where
    G: "for_each xs g G1 = (None, G)" "rectangular R C G"
    and c: "\<forall>a b. 0 \<le> a \<and> a < R \<and> 0 \<le> b \<and> b < C \<longrightarrow>
              cell_at G a b =
                (if (\<exists>x \<in> set xs. a = row x) \<and> P b then Some v else cell_at G1 a b)"
    by blast
  have "for_each (x # xs) g ng = (None, G)"
    using G1(1) G(1) by simp
  moreover have "cell_at G a b =
                (if (\<exists>x \<in> set (x # xs). a = row x) \<and> P b then Some v else cell_at ng a b)"
    if ab: "0 \<le> a \<and> a < R \<and> 0 \<le> b \<and> b < C" for a b
  proof -
    have "cell_at G a b =
            (if (\<exists>x \<in> set xs. a = row x) \<and> P b then Some v else cell_at G1 a b)"
      using c ab by blast
    moreover have "cell_at G1 a b = (if a = row x \<and> P b then Some v else cell_at ng a b)"
      using c1 ab by blast
    ultimately show ?thesis by auto
  qed
  ultimately show ?case using G(2) by blast
qed

text \<open>
  One write of the brush in a row the code reaches: the cell is painted when the
  dividend \<open>j + y + C\<close> is non-negative or a multiple of \<open>C\<close>; otherwise the column
  index is negative and the grid stays as it is.
\<close>

lemma paint_cell_in_row:
  assumes "rectangular R C ng" "0 < R" "0 < C" "0 \<le> i + x + R \<or> R dvd (i + x)"
  shows "paint_cell R C i j v x y ng =
           (None, if 0 \<le> j + y + C \<or> C dvd (j + y)
                  then with_cell ng ((i + x) mod R) ((j + y) mod C) v else ng)"
proof -
  have row: "wrap i x R = Some ((i + x) mod R)"
    using assms(2,4) by (simp add: wrap_value)
  have a: "0 \<le> (i + x) mod R" "(i + x) mod R < R" using assms(2) by simp_all
  have b: "0 \<le> (j + y) mod C" "(j + y) mod C < C" using assms(3) by simp_all
  show ?thesis
  proof (cases "0 \<le> j + y + C \<or> C dvd (j + y)")
    case True
    then have col: "wrap j y C = Some ((j + y) mod C)"
      using assms(3) by (simp add: wrap_value)
    have "put_cell ng (Some ((i + x) mod R)) (Some ((j + y) mod C)) v =
            Inr (with_cell ng ((i + x) mod R) ((j + y) mod C) v)"
      using assms(1) a b by (rule put_cell_rectangular)
    then show ?thesis using True by (simp add: paint_cell_def row col)
  next
    case False
    then have col: "wrap j y C = Some ((j + y) mod C - C)"
      using assms(3) by (simp add: wrap_value)
    have "(j + y) mod C - C < 0" using b(2) by simp
    then have "put_cell ng (Some ((i + x) mod R)) (Some ((j + y) mod C - C)) v = Inr ng"
      using assms(1) a by (intro put_cell_negative_column)
    then show ?thesis using False by (simp add: paint_cell_def row col)
  qed
qed

lemma paint_cell_throws:
  assumes "0 < R" "i + x + R < 0" "\<not> R dvd (i + x)"
  shows "paint_cell R C i j v x y ng = (Some TypeError, ng)"
proof -
  have "wrap i x R = Some ((i + x) mod R - R)"
    using assms by (simp add: wrap_value)
  moreover have "(i + x) mod R - R < 0" using assms(1) by simp
  ultimately show ?thesis
    by (simp add: paint_cell_def put_cell_negative_row)
qed

lemma brush_row:
  assumes "0 < R" "0 < C" "0 \<le> i + x + R \<or> R dvd (i + x)" "rectangular R C ng"
  shows "\<exists>G. for_each ys (paint_cell R C i j v x) ng = (None, G) \<and> rectangular R C G \<and>
           (\<forall>a b. 0 \<le> a \<and> a < R \<and> 0 \<le> b \<and> b < C \<longrightarrow>
              cell_at G a b =
                (if a = (i + x) mod R \<and>
                    (\<exists>y \<in> set ys. b = (j + y) mod C \<and> (0 \<le> j + y + C \<or> C dvd (j + y)))
                 then Some v else cell_at ng a b))"
proof (rule row_painting_loop [where good = "\<lambda>y. 0 \<le> j + y + C \<or> C dvd (j + y)"
      and col = "\<lambda>y. (j + y) mod C"])
  show "paint_cell R C i j v x y G =
          (None, if 0 \<le> j + y + C \<or> C dvd (j + y)
                 then with_cell G ((i + x) mod R) ((j + y) mod C) v else G)"
    if "rectangular R C G" for y G
    using that assms(1-3) by (rule paint_cell_in_row)
  show "0 \<le> (i + x) mod R" "(i + x) mod R < R" using assms(1) by simp_all
  show "0 \<le> (j + y) mod C \<and> (j + y) mod C < C" for y using assms(2) by simp
  show "rectangular R C ng" by (rule assms(4))
qed

lemma brush_rows:
  assumes "0 < R" "0 < C" "rectangular R C ng"
    and "\<forall>x \<in> set xs. 0 \<le> i + x + R \<or> R dvd (i + x)"
  shows "\<exists>G. for_each xs (\<lambda>x. for_each ys (paint_cell R C i j v x)) ng = (None, G) \<and>
           rectangular R C G \<and>
           (\<forall>a b. 0 \<le> a \<and> a < R \<and> 0 \<le> b \<and> b < C \<longrightarrow>
              cell_at G a b =
                (if (\<exists>x \<in> set xs. a = (i + x) mod R) \<and>
                    (\<exists>y \<in> set ys. b = (j + y) mod C \<and> (0 \<le> j + y + C \<or> C dvd (j + y)))
                 then Some v else cell_at ng a b))"
proof (rule grid_painting_loop [where row = "\<lambda>x. (i + x) mod R"
      and P = "\<lambda>b. \<exists>y \<in> set ys. b = (j + y) mod C \<and> (0 \<le> j + y + C \<or> C dvd (j + y))"])
  show "\<exists>G'. for_each ys (paint_cell R C i j v x) G = (None, G') \<and> rectangular R C G' \<and>
          (\<forall>a b. 0 \<le> a \<and> a < R \<and> 0 \<le> b \<and> b < C \<longrightarrow>
             cell_at G' a b =
               (if a = (i + x) mod R \<and>
                   (\<exists>y \<in> set ys. b = (j + y) mod C \<and> (0 \<le> j + y + C \<or> C dvd (j + y)))
                then Some v else cell_at G a b))"
    if "x \<in> set xs" "rectangular R C G" for x G
    using assms(1,2) _ that(2)
  proof (rule brush_row)
    show "0 \<le> i + x + R \<or> R dvd (i + x)" using assms(4) that(1) by blast
  qed
  show "rectangular R C ng" by (rule assms(3))
qed


text \<open>
  When the row index is right for every offset of the brush, when it is not, and when
  every wrapped column is the column of some offset that is painted.
\<close>

lemma rows_reached:
  assumes "(h::int) < 0 \<or> R = 1 \<or> h \<le> i + R \<or> (h = 0 \<and> R dvd i)"
  shows "\<forall>x \<in> {- h..h}. 0 \<le> i + x + R \<or> R dvd (i + x)"
  using assms by auto

lemma consecutive_multiples:
  assumes "(R::int) dvd m" "R dvd m + 1" "0 < R"
  shows "R = 1"
proof -
  have "R dvd (m + 1) - m" using assms(2,1) by (rule dvd_diff)
  then have "R dvd 1" by simp
  with assms(3) show ?thesis by simp
qed

lemma row_not_reached:
  assumes "0 < (R::int)" and "\<not> (h < 0 \<or> R = 1 \<or> h \<le> i + R \<or> (h = 0 \<and> R dvd i))"
  shows "\<exists>x \<in> {- h..h}. i + x + R < 0 \<and> \<not> R dvd (i + x)"
proof (cases "h = 0")
  case True
  with assms(2) have "i + 0 + R < 0 \<and> \<not> R dvd (i + 0)" by simp
  with True show ?thesis by (intro bexI [of _ 0]) simp_all
next
  case False
  with assms(2) have h: "1 \<le> h" and R: "R \<noteq> 1" and neg: "i - h + R < 0" by simp_all
  show ?thesis
  proof (cases "R dvd (i - h)")
    case False
    with neg have "i + (- h) + R < 0 \<and> \<not> R dvd (i + (- h))" by simp
    then show ?thesis using h by (intro bexI [of _ "- h"]) simp_all
  next
    case True
    have next_no: "\<not> R dvd (i - h) + 1"
      using consecutive_multiples [OF True _ assms(1)] R by blast
    have "i - h + R \<noteq> - 1"
    proof
      assume "i - h + R = - 1"
      then have "(i - h) + 1 = - R" by simp
      then have "R dvd (i - h) + 1" by simp
      with next_no show False by simp
    qed
    with neg have "i + (- h + 1) + R < 0" by simp
    moreover have "\<not> R dvd (i + (- h + 1))"
      using next_no by (simp add: algebra_simps)
    ultimately show ?thesis using h by (intro bexI [of _ "- h + 1"]) simp_all
  qed
qed


lemma column_not_reached:
  assumes "0 < (C::int)"
    and "\<not> (h < 0 \<or> C = 1 \<or> h \<le> j + C \<or> - 1 \<le> j + h \<or> (h = 0 \<and> C dvd j))"
  shows "\<exists>y \<in> {- h..h}. \<forall>y' \<in> {- h..h}.
           0 \<le> j + y' + C \<or> C dvd (j + y') \<longrightarrow> (j + y') mod C \<noteq> (j + y) mod C"
proof (cases "0 \<le> j + h + C")
  case True
  let ?y = "- 1 - j - C"
  have C: "2 \<le> C" using assms by simp
  have in_brush: "?y \<in> {- h..h}" using assms(2) True by simp
  have "(j + ?y) mod C = (- 1 - C) mod C" by simp
  also have "\<dots> = (- 1 - C + C) mod C" by (simp only: mod_add_self2)
  also have "\<dots> = (- 1) mod C" by simp
  also have "\<dots> = C - 1" using assms(1) by (simp add: zmod_minus1)
  finally have last: "(j + ?y) mod C = C - 1" .
  have "(j + y') mod C \<noteq> C - 1"
    if y': "y' \<in> {- h..h}" and good: "0 \<le> j + y' + C \<or> C dvd (j + y')" for y'
  proof (cases "C dvd (j + y')")
    case True
    then have "(j + y') mod C = 0" by simp
    with C show ?thesis by simp
  next
    case False
    with good have nn: "0 \<le> j + y' + C" by simp
    have small: "j + y' + C < C - 1" using assms(2) y' by simp
    then have "j + y' + C < C" by simp
    with nn have "(j + y' + C) mod C = j + y' + C" by (rule mod_pos_pos_trivial)
    moreover have "(j + y' + C) mod C = (j + y') mod C" by (rule mod_add_self2)
    ultimately have "(j + y') mod C = j + y' + C" by simp
    with small show ?thesis by simp
  qed
  with in_brush last show ?thesis by (intro bexI [of _ ?y]) simp_all
next
  case False
  have "\<not> (h < 0 \<or> C = 1 \<or> h \<le> j + C \<or> (h = 0 \<and> C dvd j))"
    using assms(2) by simp
  from row_not_reached [OF assms(1) this] obtain y where
    y: "y \<in> {- h..h}" "\<not> C dvd (j + y)"
    by blast
  have "(j + y') mod C \<noteq> (j + y) mod C"
    if y': "y' \<in> {- h..h}" and good: "0 \<le> j + y' + C \<or> C dvd (j + y')" for y'
  proof -
    have "j + y' + C < 0" using False y' by simp
    with good have "(j + y') mod C = 0" by simp
    moreover have "(j + y) mod C \<noteq> 0" using y(2) by (simp add: dvd_eq_mod_eq_0)
    ultimately show ?thesis by simp
  qed
  with y(1) show ?thesis by blast
qed

lemma brush_throws:
  assumes "0 < R" "0 < C" "ys \<noteq> []"
  shows "rectangular R C ng \<Longrightarrow> \<exists>x \<in> set xs. i + x + R < 0 \<and> \<not> R dvd (i + x) \<Longrightarrow>
         fst (for_each xs (\<lambda>x. for_each ys (paint_cell R C i j v x)) ng) = Some TypeError"
proof (induction xs arbitrary: ng)
  case Nil
  then show ?case by simp
next
  case (Cons x xs)
  obtain y ys' where ys: "ys = y # ys'" using assms(3) by (cases ys) auto
  show ?case
  proof (cases "i + x + R < 0 \<and> \<not> R dvd (i + x)")
    case True
    then have "paint_cell R C i j v x y ng = (Some TypeError, ng)"
      using assms(1) by (intro paint_cell_throws) simp_all
    then show ?thesis by (simp add: ys)
  next
    case False
    then have good: "0 \<le> i + x + R \<or> R dvd (i + x)" by auto
    from brush_row [OF assms(1,2) good Cons.prems(1), of ys j v] obtain G where
      G: "for_each ys (paint_cell R C i j v x) ng = (None, G)" "rectangular R C G"
      by blast
    have "\<exists>x \<in> set xs. i + x + R < 0 \<and> \<not> R dvd (i + x)"
      using Cons.prems(2) False by auto
    from Cons.IH [OF G(2) this] show ?thesis using G(1) by simp
  qed
qed

text \<open>
  Outside the rows condition the click throws: some offset of the brush has a negative
  row index.
\<close>

lemma handleCellClick_throws:
  assumes "rectangular (numRows s) (numCols s) (grid s)" "0 < numRows s" "0 < numCols s"
    and "\<not> (brushSize s div 2 < 0 \<or> numRows s = 1 \<or> brushSize s div 2 \<le> i + numRows s \<or>
            (brushSize s div 2 = 0 \<and> numRows s dvd i))"
  shows "fst (handleCellClick i j s) = Some TypeError"
proof -
  let ?h = "brushSize s div 2"
  have "\<exists>x \<in> set [- ?h..?h]. i + x + numRows s < 0 \<and> \<not> numRows s dvd (i + x)"
    using row_not_reached [OF assms(2,4)] by simp
  moreover have "[- ?h..?h] \<noteq> []" using assms(4) by simp
  ultimately have
    "fst (for_each [- ?h..?h]
            (\<lambda>x. for_each [- ?h..?h]
                    (paint_cell (numRows s) (numCols s) i j (if isEraser s then 0 else 1) x))
            (grid s)) = Some TypeError"
    using assms(1-3) by (intro brush_throws) simp_all
  then show ?thesis
    by (cases "isEraser s") (auto simp add: handleCellClick_def Let_def split: prod.splits)
qed


lemma handleCellClick_paints:
  assumes "rectangular (numRows s) (numCols s) (grid s)"
    and "0 < numRows s" and "0 < numCols s"
    and "brushSize s div 2 < 0 \<or> numRows s = 1 \<or> brushSize s div 2 \<le> i + numRows s \<or>
         (brushSize s div 2 = 0 \<and> numRows s dvd i)"
  shows "\<exists>G. handleCellClick i j s = (None, s\<lparr>grid := G\<rparr>) \<and>
           rectangular (numRows s) (numCols s) G \<and>
           (\<forall>a b. 0 \<le> a \<and> a < numRows s \<and> 0 \<le> b \<and> b < numCols s \<longrightarrow>
              cell_at G a b =
                (if (\<exists>x \<in> {- (brushSize s div 2)..brushSize s div 2}. a = (i + x) mod numRows s) \<and>
                    (\<exists>y \<in> {- (brushSize s div 2)..brushSize s div 2}.
                        b = (j + y) mod numCols s \<and>
                        (0 \<le> j + y + numCols s \<or> numCols s dvd (j + y)))
                 then Some (if isEraser s then 0 else 1)
                 else cell_at (grid s) a b))"
proof -
  let ?R = "numRows s" and ?C = "numCols s" and ?h = "brushSize s div 2"
  let ?v = "if isEraser s then 0 else 1 :: int"
  have xs: "\<forall>x \<in> set [- ?h..?h]. 0 \<le> i + x + ?R \<or> ?R dvd (i + x)"
    using rows_reached [OF assms(4)] by simp
  from brush_rows [OF assms(2,3,1) xs, of "[- ?h..?h]" j ?v] obtain G where
    run: "for_each [- ?h..?h] (\<lambda>x. for_each [- ?h..?h] (paint_cell ?R ?C i j ?v x)) (grid s) =
            (None, G)"
    and rect: "rectangular ?R ?C G"
    and cells: "\<forall>a b. 0 \<le> a \<and> a < ?R \<and> 0 \<le> b \<and> b < ?C \<longrightarrow>
              cell_at G a b =
                (if (\<exists>x \<in> set [- ?h..?h]. a = (i + x) mod ?R) \<and>
                    (\<exists>y \<in> set [- ?h..?h]. b = (j + y) mod ?C \<and> (0 \<le> j + y + ?C \<or> ?C dvd (j + y)))
                 then Some ?v else cell_at (grid s) a b)"
    by blast
  have res: "handleCellClick i j s = (None, s\<lparr>grid := G\<rparr>)"
    using run by (simp add: handleCellClick_def Let_def)
  have "\<forall>a b. 0 \<le> a \<and> a < ?R \<and> 0 \<le> b \<and> b < ?C \<longrightarrow>
          cell_at G a b =
                (if (\<exists>x \<in> {- ?h..?h}. a = (i + x) mod ?R) \<and>
                    (\<exists>y \<in> {- ?h..?h}. b = (j + y) mod ?C \<and> (0 \<le> j + y + ?C \<or> ?C dvd (j + y)))
                 then Some ?v else cell_at (grid s) a b)"
    using cells by simp
  with res rect show ?thesis by blast
qed




text \<open>
  Outside the columns condition some wrapped column of the brush is never written: its
  cells keep their values in every row.
\<close>

lemma handleCellClick_misses_column:
  assumes "rectangular (numRows s) (numCols s) (grid s)"
    and "0 < numRows s" and "0 < numCols s"
    and "brushSize s div 2 < 0 \<or> numRows s = 1 \<or> brushSize s div 2 \<le> i + numRows s \<or>
         (brushSize s div 2 = 0 \<and> numRows s dvd i)"
    and "\<not> (brushSize s div 2 < 0 \<or> numCols s = 1 \<or> brushSize s div 2 \<le> j + numCols s \<or>
            - 1 \<le> j + brushSize s div 2 \<or> (brushSize s div 2 = 0 \<and> numCols s dvd j))"
  shows "\<exists>y \<in> {- (brushSize s div 2)..brushSize s div 2}.
           \<forall>a. 0 \<le> a \<and> a < numRows s \<longrightarrow>
             cell_at (grid (snd (handleCellClick i j s))) a ((j + y) mod numCols s) =
               cell_at (grid s) a ((j + y) mod numCols s)"
proof -
  let ?R = "numRows s" and ?C = "numCols s" and ?h = "brushSize s div 2"
  let ?v = "if isEraser s then 0 else 1 :: int"
  from handleCellClick_paints [OF assms(1-4), of j] obtain G where
    res: "handleCellClick i j s = (None, s\<lparr>grid := G\<rparr>)"
    and cells: "\<forall>a b. 0 \<le> a \<and> a < ?R \<and> 0 \<le> b \<and> b < ?C \<longrightarrow>
              cell_at G a b =
                (if (\<exists>x \<in> {- ?h..?h}. a = (i + x) mod ?R) \<and>
                    (\<exists>y \<in> {- ?h..?h}. b = (j + y) mod ?C \<and> (0 \<le> j + y + ?C \<or> ?C dvd (j + y)))
                 then Some ?v else cell_at (grid s) a b)"
    by blast
  from column_not_reached [OF assms(3,5)] obtain y where
    y: "y \<in> {- ?h..?h}"
    and miss: "\<forall>y' \<in> {- ?h..?h}.
           0 \<le> j + y' + ?C \<or> ?C dvd (j + y') \<longrightarrow> (j + y') mod ?C \<noteq> (j + y) mod ?C"
    by blast
  define b where "b = (j + y) mod ?C"
  have b: "0 \<le> b" "b < ?C" using assms(3) by (simp_all add: b_def)
  have none: "\<not> (\<exists>y' \<in> {- ?h..?h}. b = (j + y') mod ?C \<and> (0 \<le> j + y' + ?C \<or> ?C dvd (j + y')))"
    using miss unfolding b_def by metis
  have "cell_at G a b = cell_at (grid s) a b" if a: "0 \<le> a \<and> a < ?R" for a
  proof -
    have "0 \<le> a \<and> a < ?R \<and> 0 \<le> b \<and> b < ?C" using a b by simp
    from cells [rule_format, OF this] show ?thesis
      using none by (simp only: if_False simp_thms)
  qed
  then have "\<forall>a. 0 \<le> a \<and> a < ?R \<longrightarrow>
               cell_at (grid (snd (handleCellClick i j s))) a b = cell_at (grid s) a b"
    by (simp add: res)
  then show ?thesis
    using y unfolding b_def by (rule rev_bexI [rotated])
qed

section \<open>The blinker\<close>

lemma grid_with_cells:
  assumes "0 \<le> R" "0 \<le> C" "0 \<le> a" "a < R" "0 \<le> b" "b < C"
  shows "\<forall>(x, y) \<in> set live. 0 \<le> x \<and> x < R \<and> 0 \<le> y \<and> y < C \<Longrightarrow>
         rectangular R C (grid_with R C live) \<and>
         cell_at (grid_with R C live) a b = (if (a, b) \<in> set live then Some 1 else Some 0)"
proof -
  have gen: "\<forall>(x, y) \<in> set live. 0 \<le> x \<and> x < R \<and> 0 \<le> y \<and> y < C \<Longrightarrow> rectangular R C G \<Longrightarrow>
         rectangular R C (foldl (\<lambda>G (a, b). with_cell G a b 1) G live) \<and>
         cell_at (foldl (\<lambda>G (a, b). with_cell G a b 1) G live) a b =
           (if (a, b) \<in> set live then Some 1 else cell_at G a b)" for G
  proof (induction live arbitrary: G)
    case Nil
    then show ?case by simp
  next
    case (Cons p live)
    obtain x y where p: "p = (x, y)" by (cases p)
    with Cons.prems have xy: "0 \<le> x" "x < R" "0 \<le> y" "y < C" by auto
    have r: "rectangular R C (with_cell G x y 1)"
      using Cons.prems(2) xy(1,2) by (rule rectangular_with_cell)
    have c: "cell_at (with_cell G x y 1) a b =
               (if a = x \<and> b = y then Some 1 else cell_at G a b)"
      using cell_at_with_cell [OF Cons.prems(2) xy assms(3-6)] .
    show ?case using Cons.IH [OF _ r] Cons.prems(1) c by (auto simp add: p)
  qed
  assume live: "\<forall>(x, y) \<in> set live. 0 \<le> x \<and> x < R \<and> 0 \<le> y \<and> y < C"
  have e: "rectangular R C (replicate (nat R) (replicate (nat C) (Some 0)))"
    using assms(1,2) by (rule rectangular_replicate)
  have "cell_at (replicate (nat R) (replicate (nat C) (Some 0))) a b = Some 0"
    using assms by (simp add: cell_at_def)
  with gen [OF live e] show ?thesis by (simp add: grid_with_def)
qed

lemma grid_eqI:
  assumes "rectangular R C g" "rectangular R C g'"
    and "\<And>a b. 0 \<le> a \<Longrightarrow> a < R \<Longrightarrow> 0 \<le> b \<Longrightarrow> b < C \<Longrightarrow> cell_at g a b = cell_at g' a b"
  shows "g = g'"
proof (rule nth_equalityI)
  show "length g = length g'" using assms(1,2) by (simp add: rectangular_def)
next
  fix k assume k: "k < length g"
  then have kR: "int k < R" using assms(1) by (simp add: rectangular_def)
  have l: "length (g ! k) = nat C" "length (g' ! k) = nat C"
    using rectangular_row [OF assms(1), of "int k"] rectangular_row [OF assms(2), of "int k"] kR
    by simp_all
  show "g ! k = g' ! k"
  proof (rule nth_equalityI)
    show "length (g ! k) = length (g' ! k)" using l by simp
  next
    fix m assume "m < length (g ! k)"
    then have "int m < C" using l by simp
    then show "g ! k ! m = g' ! k ! m"
      using assms(3) [of "int k" "int m"] kR by (simp add: cell_at_def)
  qed
qed

lemma wrap_next:
  assumes "0 \<le> (a::int)" "a < R"
  shows "(a + 1) mod R = (if a = R - 1 then 0 else a + 1)"
proof (cases "a = R - 1")
  case True
  then have "a + 1 = R" by simp
  then show ?thesis using True by simp
next
  case False
  with assms have "0 \<le> a + 1" "a + 1 < R" by simp_all
  then have "(a + 1) mod R = a + 1" by (rule mod_pos_pos_trivial)
  with False show ?thesis by simp
qed

lemma wrap_prev:
  assumes "0 \<le> (a::int)" "a < R"
  shows "(a - 1) mod R = (if a = 0 then R - 1 else a - 1)"
proof (cases "a = 0")
  case True
  from assms True have "0 \<le> R - 1" "R - 1 < R" by simp_all
  then have "(R - 1) mod R = R - 1" by (rule mod_pos_pos_trivial)
  moreover have "(R - 1) mod R = (- 1) mod R"
    using mod_add_self1 [of R "- 1"] by (simp only: diff_conv_add_uminus)
  ultimately show ?thesis using True by simp
next
  case False
  with assms have "0 \<le> a - 1" "a - 1 < R" by simp_all
  then have "(a - 1) mod R = a - 1" by (rule mod_pos_pos_trivial)
  with False show ?thesis by simp
qed

lemma neighbours_unfold:
  "toroidal_neighbors R C g a b =
     the (cell_at g a ((b + 1) mod C)) + the (cell_at g a ((b - 1) mod C)) +
     the (cell_at g ((a + 1) mod R) ((b - 1) mod C)) +
     the (cell_at g ((a - 1) mod R) ((b + 1) mod C)) +
     the (cell_at g ((a + 1) mod R) ((b + 1) mod C)) +
     the (cell_at g ((a - 1) mod R) ((b - 1) mod C)) +
     the (cell_at g ((a + 1) mod R) b) + the (cell_at g ((a - 1) mod R) b)"
  if "0 \<le> a" "a < R" "0 \<le> b" "b < C"
proof -
  have "toroidal_neighbors R C g a b =
          (\<Sum>(dx, dy) \<leftarrow> operations.
             the (cell_at g ((a + dx + R) mod R) ((b + dy + C) mod C)))"
    by (simp add: toroidal_neighbors_def sum_list_distinct_conv_sum_set
        operations_are_the_offsets)
  also have "\<dots> =
     the (cell_at g a ((b + 1) mod C)) + the (cell_at g a ((b - 1) mod C)) +
     the (cell_at g ((a + 1) mod R) ((b - 1) mod C)) +
     the (cell_at g ((a - 1) mod R) ((b + 1) mod C)) +
     the (cell_at g ((a + 1) mod R) ((b + 1) mod C)) +
     the (cell_at g ((a - 1) mod R) ((b - 1) mod C)) +
     the (cell_at g ((a + 1) mod R) b) + the (cell_at g ((a - 1) mod R) b)"
    using that by (simp add: operations_def)
  finally show ?thesis .
qed


lemma upright_turns_flat:
  assumes "1 \<le> cx" "cx + 3 < R" "1 \<le> cy" "cy + 3 < C"
    and "0 \<le> a" "a < R" "0 \<le> b" "b < C"
    and V: "\<And>a' b'. 0 \<le> a' \<Longrightarrow> a' < R \<Longrightarrow> 0 \<le> b' \<Longrightarrow> b' < C \<Longrightarrow>
              cell_at V a' b' =
                (if b' = cy + 1 \<and> cx \<le> a' \<and> a' \<le> cx + 2 then Some 1 else Some 0)"
  shows "spec_cell conway R C V a b =
           (if a = cx + 1 \<and> cy \<le> b \<and> b \<le> cy + 2 then 1 else 0)"
proof -
  define an where "an = (a + 1) mod R"
  define ap where "ap = (a - 1) mod R"
  define bn where "bn = (b + 1) mod C"
  define bp where "bp = (b - 1) mod C"
  have an: "an = (if a = R - 1 then 0 else a + 1)"
    unfolding an_def using assms(5,6) by (rule wrap_next)
  have ap: "ap = (if a = 0 then R - 1 else a - 1)"
    unfolding ap_def using assms(5,6) by (rule wrap_prev)
  have bn: "bn = (if b = C - 1 then 0 else b + 1)"
    unfolding bn_def using assms(7,8) by (rule wrap_next)
  have bp: "bp = (if b = 0 then C - 1 else b - 1)"
    unfolding bp_def using assms(7,8) by (rule wrap_prev)
  have r: "0 \<le> an" "an < R" "0 \<le> ap" "ap < R" "0 \<le> bn" "bn < C" "0 \<le> bp" "bp < C"
    using assms(5-8) by (auto simp add: an ap bn bp)
  have n: "toroidal_neighbors R C V a b =
     the (cell_at V a bn) + the (cell_at V a bp) +
     the (cell_at V an bp) + the (cell_at V ap bn) +
     the (cell_at V an bn) + the (cell_at V ap bp) +
     the (cell_at V an b) + the (cell_at V ap b)"
    unfolding an_def ap_def bn_def bp_def using assms(5-8) by (rule neighbours_unfold)
  have cells:
    "cell_at V a b = (if b = cy + 1 \<and> cx \<le> a \<and> a \<le> cx + 2 then Some 1 else Some 0)"
    "cell_at V a bn = (if bn = cy + 1 \<and> cx \<le> a \<and> a \<le> cx + 2 then Some 1 else Some 0)"
    "cell_at V a bp = (if bp = cy + 1 \<and> cx \<le> a \<and> a \<le> cx + 2 then Some 1 else Some 0)"
    "cell_at V an b = (if b = cy + 1 \<and> cx \<le> an \<and> an \<le> cx + 2 then Some 1 else Some 0)"
    "cell_at V an bn = (if bn = cy + 1 \<and> cx \<le> an \<and> an \<le> cx + 2 then Some 1 else Some 0)"
    "cell_at V an bp = (if bp = cy + 1 \<and> cx \<le> an \<and> an \<le> cx + 2 then Some 1 else Some 0)"
    "cell_at V ap b = (if b = cy + 1 \<and> cx \<le> ap \<and> ap \<le> cx + 2 then Some 1 else Some 0)"
    "cell_at V ap bn = (if bn = cy + 1 \<and> cx \<le> ap \<and> ap \<le> cx + 2 then Some 1 else Some 0)"
    "cell_at V ap bp = (if bp = cy + 1 \<and> cx \<le> ap \<and> ap \<le> cx + 2 then Some 1 else Some 0)"
    using r assms(5-8) by (simp_all add: V)
  show ?thesis
    unfolding spec_cell_def n cells next_state_def conway_def
    using assms(1-8) unfolding an ap bn bp
    by (auto split: if_splits)
qed


lemma flat_turns_upright:
  assumes "1 \<le> cx" "cx + 3 < R" "1 \<le> cy" "cy + 3 < C"
    and "0 \<le> a" "a < R" "0 \<le> b" "b < C"
    and H: "\<And>a' b'. 0 \<le> a' \<Longrightarrow> a' < R \<Longrightarrow> 0 \<le> b' \<Longrightarrow> b' < C \<Longrightarrow>
              cell_at H a' b' =
                (if a' = cx + 1 \<and> cy \<le> b' \<and> b' \<le> cy + 2 then Some 1 else Some 0)"
  shows "spec_cell conway R C H a b =
           (if b = cy + 1 \<and> cx \<le> a \<and> a \<le> cx + 2 then 1 else 0)"
proof -
  define an where "an = (a + 1) mod R"
  define ap where "ap = (a - 1) mod R"
  define bn where "bn = (b + 1) mod C"
  define bp where "bp = (b - 1) mod C"
  have an: "an = (if a = R - 1 then 0 else a + 1)"
    unfolding an_def using assms(5,6) by (rule wrap_next)
  have ap: "ap = (if a = 0 then R - 1 else a - 1)"
    unfolding ap_def using assms(5,6) by (rule wrap_prev)
  have bn: "bn = (if b = C - 1 then 0 else b + 1)"
    unfolding bn_def using assms(7,8) by (rule wrap_next)
  have bp: "bp = (if b = 0 then C - 1 else b - 1)"
    unfolding bp_def using assms(7,8) by (rule wrap_prev)
  have r: "0 \<le> an" "an < R" "0 \<le> ap" "ap < R" "0 \<le> bn" "bn < C" "0 \<le> bp" "bp < C"
    using assms(5-8) by (auto simp add: an ap bn bp)
  have n: "toroidal_neighbors R C H a b =
     the (cell_at H a bn) + the (cell_at H a bp) +
     the (cell_at H an bp) + the (cell_at H ap bn) +
     the (cell_at H an bn) + the (cell_at H ap bp) +
     the (cell_at H an b) + the (cell_at H ap b)"
    unfolding an_def ap_def bn_def bp_def using assms(5-8) by (rule neighbours_unfold)
  have cells:
    "cell_at H a b = (if a = cx + 1 \<and> cy \<le> b \<and> b \<le> cy + 2 then Some 1 else Some 0)"
    "cell_at H a bn = (if a = cx + 1 \<and> cy \<le> bn \<and> bn \<le> cy + 2 then Some 1 else Some 0)"
    "cell_at H a bp = (if a = cx + 1 \<and> cy \<le> bp \<and> bp \<le> cy + 2 then Some 1 else Some 0)"
    "cell_at H an b = (if an = cx + 1 \<and> cy \<le> b \<and> b \<le> cy + 2 then Some 1 else Some 0)"
    "cell_at H an bn = (if an = cx + 1 \<and> cy \<le> bn \<and> bn \<le> cy + 2 then Some 1 else Some 0)"
    "cell_at H an bp = (if an = cx + 1 \<and> cy \<le> bp \<and> bp \<le> cy + 2 then Some 1 else Some 0)"
    "cell_at H ap b = (if ap = cx + 1 \<and> cy \<le> b \<and> b \<le> cy + 2 then Some 1 else Some 0)"
    "cell_at H ap bn = (if ap = cx + 1 \<and> cy \<le> bn \<and> bn \<le> cy + 2 then Some 1 else Some 0)"
    "cell_at H ap bp = (if ap = cx + 1 \<and> cy \<le> bp \<and> bp \<le> cy + 2 then Some 1 else Some 0)"
    using r assms(5-8) by (simp_all add: H)
  show ?thesis
    unfolding spec_cell_def n cells next_state_def conway_def
    using assms(1-8) unfolding an ap bn bp
    by (auto split: if_splits)
qed

lemma binaryI:
  assumes "rectangular R C g"
    and "\<And>a b. 0 \<le> a \<Longrightarrow> a < R \<Longrightarrow> 0 \<le> b \<Longrightarrow> b < C \<Longrightarrow>
           cell_at g a b = Some 0 \<or> cell_at g a b = Some 1"
  shows "binary g"
  unfolding binary_def
proof (intro ballI)
  fix row c assume "row \<in> set g" "c \<in> set row"
  then obtain k m where k: "k < length g" "row = g ! k" and m: "m < length row" "c = row ! m"
    by (auto simp add: in_set_conv_nth)
  have kR: "int k < R" using k(1) assms(1) by (simp add: rectangular_def)
  have "length row = nat C"
    using rectangular_row [OF assms(1), of "int k"] kR k(2) by simp
  then have "int m < C" using m(1) by simp
  then show "c = Some 0 \<or> c = Some 1"
    using assms(2) [of "int k" "int m"] kR k(2) m(2) by (simp add: cell_at_def)
qed

lemma centre_bounds:
  assumes "10 \<le> (n::int)"
  shows "1 \<le> n div 2" "n div 2 + 3 < n"
  using assms by auto

lemma upright_cells:
  assumes "10 \<le> R" "10 \<le> C" "0 \<le> a" "a < R" "0 \<le> b" "b < C"
  shows "rectangular R C (grid_with R C (blinker_upright R C))"
    and "cell_at (grid_with R C (blinker_upright R C)) a b =
           (if b = C div 2 + 1 \<and> R div 2 \<le> a \<and> a \<le> R div 2 + 2 then Some 1 else Some 0)"
proof -
  have inside: "\<forall>(x, y) \<in> set (blinker_upright R C). 0 \<le> x \<and> x < R \<and> 0 \<le> y \<and> y < C"
    using assms(1,2) by (auto simp add: blinker_upright_def)
  have R: "0 \<le> R" and C: "0 \<le> C" using assms(1,2) by simp_all
  from grid_with_cells [OF R C assms(3-6) inside]
  show "rectangular R C (grid_with R C (blinker_upright R C))"
    and "cell_at (grid_with R C (blinker_upright R C)) a b =
           (if b = C div 2 + 1 \<and> R div 2 \<le> a \<and> a \<le> R div 2 + 2 then Some 1 else Some 0)"
    by (auto simp add: blinker_upright_def)
qed

lemma flat_cells:
  assumes "10 \<le> R" "10 \<le> C" "0 \<le> a" "a < R" "0 \<le> b" "b < C"
  shows "rectangular R C (grid_with R C (blinker_flat R C))"
    and "cell_at (grid_with R C (blinker_flat R C)) a b =
           (if a = R div 2 + 1 \<and> C div 2 \<le> b \<and> b \<le> C div 2 + 2 then Some 1 else Some 0)"
proof -
  have inside: "\<forall>(x, y) \<in> set (blinker_flat R C). 0 \<le> x \<and> x < R \<and> 0 \<le> y \<and> y < C"
    using assms(1,2) by (auto simp add: blinker_flat_def)
  have R: "0 \<le> R" and C: "0 \<le> C" using assms(1,2) by simp_all
  from grid_with_cells [OF R C assms(3-6) inside]
  show "rectangular R C (grid_with R C (blinker_flat R C))"
    and "cell_at (grid_with R C (blinker_flat R C)) a b =
           (if a = R div 2 + 1 \<and> C div 2 \<le> b \<and> b \<le> C div 2 + 2 then Some 1 else Some 0)"
    by (auto simp add: blinker_flat_def)
qed


lemma step_upright:
  assumes "10 \<le> R" "10 \<le> C"
  shows "step R C ''conway'' (grid_with R C (blinker_upright R C)) =
           Inr (grid_with R C (blinker_flat R C), live_cells (grid_with R C (blinker_flat R C)))"
proof -
  let ?V = "grid_with R C (blinker_upright R C)" and ?H = "grid_with R C (blinker_flat R C)"
  have pos: "0 \<le> R" "0 \<le> C" "0 \<le> (0::int)" "0 < R" "0 < C" using assms by simp_all
  have rV: "rectangular R C ?V"
    using upright_cells(1) [OF assms pos(3,4) pos(3,5)] .
  have rH: "rectangular R C ?H"
    using flat_cells(1) [OF assms pos(3,4) pos(3,5)] .
  have bV: "binary ?V"
    using rV by (rule binaryI) (simp add: upright_cells(2) [OF assms])
  have "spec_step conway R C ?V = ?H"
  proof (rule grid_eqI [OF spec_step_rectangular [OF pos(1,2)] rH])
    fix a b assume ab: "0 \<le> a" "a < R" "0 \<le> b" "b < C"
    have "spec_cell conway R C ?V a b =
            (if a = R div 2 + 1 \<and> C div 2 \<le> b \<and> b \<le> C div 2 + 2 then 1 else 0)"
      using centre_bounds [OF assms(1)] centre_bounds [OF assms(2)] ab
      by (rule upright_turns_flat) (rule upright_cells(2) [OF assms])
    then show "cell_at (spec_step conway R C ?V) a b = cell_at ?H a b"
      using ab by (simp add: spec_step_cell flat_cells(2) [OF assms])
  qed
  then show ?thesis
    using step_is_spec_step [OF rV bV, of "''conway''" conway]
    by (simp add: simulationModes_def)
qed

lemma step_flat:
  assumes "10 \<le> R" "10 \<le> C"
  shows "step R C ''conway'' (grid_with R C (blinker_flat R C)) =
           Inr (grid_with R C (blinker_upright R C),
                live_cells (grid_with R C (blinker_upright R C)))"
proof -
  let ?V = "grid_with R C (blinker_upright R C)" and ?H = "grid_with R C (blinker_flat R C)"
  have pos: "0 \<le> R" "0 \<le> C" "0 \<le> (0::int)" "0 < R" "0 < C" using assms by simp_all
  have rV: "rectangular R C ?V"
    using upright_cells(1) [OF assms pos(3,4) pos(3,5)] .
  have rH: "rectangular R C ?H"
    using flat_cells(1) [OF assms pos(3,4) pos(3,5)] .
  have bH: "binary ?H"
    using rH by (rule binaryI) (simp add: flat_cells(2) [OF assms])
  have "spec_step conway R C ?H = ?V"
  proof (rule grid_eqI [OF spec_step_rectangular [OF pos(1,2)] rV])
    fix a b assume ab: "0 \<le> a" "a < R" "0 \<le> b" "b < C"
    have "spec_cell conway R C ?H a b =
            (if b = C div 2 + 1 \<and> R div 2 \<le> a \<and> a \<le> R div 2 + 2 then 1 else 0)"
      using centre_bounds [OF assms(1)] centre_bounds [OF assms(2)] ab
      by (rule flat_turns_upright) (rule flat_cells(2) [OF assms])
    then show "cell_at (spec_step conway R C ?H) a b = cell_at ?V a b"
      using ab by (simp add: spec_step_cell upright_cells(2) [OF assms])
  qed
  then show ?thesis
    using step_is_spec_step [OF rH bH, of "''conway''" conway]
    by (simp add: simulationModes_def)
qed

text \<open>
  C6. For dimensions in [10,100], selecting the blinker stamps the column of three cells
  (c, d+1), (c+1, d+1), (c+2, d+1) around the centre (c, d) = (floor(rows/2),
  floor(cols/2)) of an otherwise empty grid. One step under conway turns it into the
  row (c+1, d), (c+1, d+1), (c+1, d+2), the same line rotated by 90 degrees about its
  middle cell, which is a different grid; a second step gives back exactly the stamped
  grid.
\<close>

theorem blinker_has_period_two:
  assumes "10 \<le> rows" and "rows \<le> 100" and "10 \<le> cols" and "cols \<le> 100"
    and "numRows s = rows" and "numCols s = cols"
  shows "handlePatternSelect ''blinker'' s =
           Inr (s\<lparr>grid := grid_with rows cols (blinker_upright rows cols),
                  generations := 0, population := []\<rparr>) \<and>
         step rows cols ''conway'' (grid_with rows cols (blinker_upright rows cols)) =
           Inr (grid_with rows cols (blinker_flat rows cols),
                live_cells (grid_with rows cols (blinker_flat rows cols))) \<and>
         step rows cols ''conway'' (grid_with rows cols (blinker_flat rows cols)) =
           Inr (grid_with rows cols (blinker_upright rows cols),
                live_cells (grid_with rows cols (blinker_upright rows cols))) \<and>
         grid_with rows cols (blinker_flat rows cols) \<noteq>
           grid_with rows cols (blinker_upright rows cols)"
proof -
  have p: "patterns ''blinker'' = Some [(0, 1), (1, 1), (2, 1)]"
    by (simp add: patterns_def)
  have stamped: "handlePatternSelect ''blinker'' s =
           Inr (s\<lparr>grid := grid_with rows cols (blinker_upright rows cols),
                  generations := 0, population := []\<rparr>)"
    using handlePatternSelect_stamps [of s "''blinker''", OF _ _ _ _ p] assms
    by (simp add: grid_with_def blinker_upright_def)
  have c: "0 \<le> rows div 2" "rows div 2 < rows" "0 \<le> cols div 2" "cols div 2 < cols"
    using assms(1,3) by auto
  have "cell_at (grid_with rows cols (blinker_upright rows cols)) (rows div 2) (cols div 2 + 1)
          = Some 1"
    using upright_cells(2) [OF assms(1,3), of "rows div 2" "cols div 2 + 1"] assms(1,3) by auto
  moreover have
    "cell_at (grid_with rows cols (blinker_flat rows cols)) (rows div 2) (cols div 2 + 1)
          = Some 0"
    using flat_cells(2) [OF assms(1,3), of "rows div 2" "cols div 2 + 1"] assms(1,3) by auto
  ultimately have "grid_with rows cols (blinker_flat rows cols) \<noteq>
           grid_with rows cols (blinker_upright rows cols)"
    by auto
  with stamped step_upright [OF assms(1,3)] step_flat [OF assms(1,3)] show ?thesis
    by simp
qed

theorem blinker_has_period_two_witness:
  "(10::int) \<le> 50 \<and> (50::int) \<le> 100 \<and>
   numRows initial_state = 50 \<and> numCols initial_state = 50 \<and>
   handlePatternSelect ''blinker'' initial_state =
     Inr (initial_state\<lparr>grid := grid_with 50 50 (blinker_upright 50 50),
                         generations := 0, population := []\<rparr>) \<and>
   blinker_upright 50 50 = [(25, 26), (26, 26), (27, 26)] \<and>
   blinker_flat 50 50 = [(26, 25), (26, 26), (26, 27)] \<and>
   step 50 50 ''conway'' (grid_with 50 50 (blinker_upright 50 50)) =
     Inr (grid_with 50 50 (blinker_flat 50 50), live_cells (grid_with 50 50 (blinker_flat 50 50))) \<and>
   step 50 50 ''conway'' (grid_with 50 50 (blinker_flat 50 50)) =
     Inr (grid_with 50 50 (blinker_upright 50 50),
          live_cells (grid_with 50 50 (blinker_upright 50 50)))"
proof -
  have d: "numRows initial_state = 50" "numCols initial_state = 50"
    by (simp_all add: initial_state_def)
  have l: "blinker_upright 50 50 = [(25, 26), (26, 26), (27, 26)]"
    "blinker_flat 50 50 = [(26, 25), (26, 26), (26, 27)]"
    by (simp_all add: blinker_upright_def blinker_flat_def)
  show ?thesis
    using blinker_has_period_two [OF _ _ _ _ d] d l by simp
qed

end
